theory Spec2Isabelle
  imports Main "HOL-Library.Char_ord" "HOL-Library.List_Lexorder" "HOL-Library.Sublist"
begin

section \<open>The tree model (node.go)\<close>

text \<open>
  The kinds of \<^verbatim>\<open>yaml.Node\<close>. \<open>ZeroKind\<close> is the zero value of \<^verbatim>\<open>yaml.Kind\<close>, the
  kind of a node nobody has initialised; \<^verbatim>\<open>KindString\<close> answers "unknown" for it.
\<close>

datatype kind = ZeroKind | DocumentNode | SequenceNode | MappingNode | ScalarNode | AliasNode

text \<open>
  The struct \<^verbatim>\<open>node\<close> together with the fields of the embedded \<^verbatim>\<open>*yaml.Node\<close> that the
  tree operations, the patch interpreter and the variable expander read or write:
  \<^verbatim>\<open>Kind\<close>, \<^verbatim>\<open>Value\<close>, \<^verbatim>\<open>Tag\<close>, \<^verbatim>\<open>Line\<close>, then \<^verbatim>\<open>File\<close> and \<^verbatim>\<open>Content\<close>. A tree is a value:
  every node is owned by its one position in the tree, and a pointer to a node is the
  position's address (see \<open>addr\<close> below). Strings are byte strings, compared bytewise
  as Go compares them.
\<close>

datatype node = Node (Kind: kind) (Value: string) (Tag: string) (Line: int)
                     (File: string) (Content: "node list")

fun KindString :: "node \<Rightarrow> string" where
  "KindString n = (case Kind n of
       DocumentNode \<Rightarrow> ''document''
     | SequenceNode \<Rightarrow> ''sequence''
     | MappingNode \<Rightarrow> ''mapping''
     | ScalarNode \<Rightarrow> ''scalar''
     | AliasNode \<Rightarrow> ''alias''
     | ZeroKind \<Rightarrow> ''unknown'')"

subsection \<open>Errors\<close>

text \<open>
  The error variables \<^verbatim>\<open>Err\<close>, \<^verbatim>\<open>ErrIO\<close>, \<^verbatim>\<open>ErrYAML\<close>, \<^verbatim>\<open>ErrDirective\<close> and
  \<^verbatim>\<open>ErrVarNotFound\<close> that \<^verbatim>\<open>defineError\<close> creates; every one but \<open>Err\<close> has the parent
  \<open>Err\<close>.
\<close>

datatype errdef = Err | ErrIO | ErrYAML | ErrDirective | ErrVarNotFound

text \<open>
  An error value.
  \<^item> \<open>errNotFound\<close> and \<open>errAfterLastElement\<close> are the two package variables made by
    \<^verbatim>\<open>errors.New\<close>; Go compares them by identity.
  \<^item> \<open>Errorf fmt args\<close> is the value of \<^verbatim>\<open>fmt.Errorf(fmt, args...)\<close> for a format without
    \<^verbatim>\<open>%w\<close>: a fresh error that has a text and nothing else (no \<^verbatim>\<open>Unwrap\<close>, no \<^verbatim>\<open>Is\<close>).
    The arguments are kept unformatted; \<open>E e\<close> is the text \<^verbatim>\<open>e.Error()\<close> passed to a
    \<^verbatim>\<open>%s\<close>, and \<open>F fmt args\<close> the text \<^verbatim>\<open>fmt.Sprintf(fmt, args...)\<close>.
  \<^item> \<open>New d fmt cause args\<close> is \<^verbatim>\<open>d.New(fmt, cause, args...)\<close>, a \<^verbatim>\<open>wrappedError\<close> whose
    parent is \<open>d\<close>; the cause \<open>None\<close> is nil.
  \<^item> \<open>runtimePanic msg\<close> is not an error value but a run-time panic of the Go program
    (an index or a slice bound out of range); it unwinds through every caller.
\<close>

datatype fmtarg = S string | D int | E error | F string "fmtarg list"
and error =
    errNotFound
  | errAfterLastElement
  | Errorf string "fmtarg list"
  | New errdef string "error option" "fmtarg list"
  | runtimePanic string

text \<open>
  \<^verbatim>\<open>errors.Is(err, errNotFound)\<close>: identity with the package variable, looked for in
  \<open>err\<close> and, for a \<^verbatim>\<open>wrappedError\<close>, in its cause (its parents are defined errors). An
  \<open>Errorf\<close> value has no \<^verbatim>\<open>Unwrap\<close> and no \<^verbatim>\<open>Is\<close>: it is nothing but itself.
\<close>

fun errorsIs_errNotFound :: "error \<Rightarrow> bool" where
  "errorsIs_errNotFound errNotFound = True"
| "errorsIs_errNotFound (New p msg cause args) =
     (case cause of None \<Rightarrow> False | Some c \<Rightarrow> errorsIs_errNotFound c)"
| "errorsIs_errNotFound _ = False"

text \<open>
  \<^verbatim>\<open>errors.Is(err, d)\<close> for one of the defined errors \<open>d\<close>: \<^verbatim>\<open>wrappedError.Is\<close> answers
  true when \<open>d\<close> is the error's parent or the parent's parent (\<open>Err\<close>), or when the
  cause is such an error.
\<close>

fun errorsIs :: "error \<Rightarrow> errdef \<Rightarrow> bool" where
  "errorsIs (New p msg cause args) d =
     (p = d \<or> d = Err \<or> (case cause of None \<Rightarrow> False | Some c \<Rightarrow> errorsIs c d))"
| "errorsIs _ _ = False"

definition isPanic :: "error \<Rightarrow> bool" where
  "isPanic e = (case e of runtimePanic _ \<Rightarrow> True | _ \<Rightarrow> False)"

subsection \<open>Mapping and Sequence operations\<close>

definition setContent :: "node \<Rightarrow> node list \<Rightarrow> node" where
  "setContent n c = Node (Kind n) (Value n) (Tag n) (Line n) (File n) c"

text \<open>
  \<^verbatim>\<open>ForEachMap\<close> walks \<^verbatim>\<open>Content\<close> two elements at a time and reads \<^verbatim>\<open>Content[i+1]\<close> before
  it calls back: on a Content of odd length it panics when it reaches the last element.
  The loops over pairs below have that case.
\<close>

definition oddContent :: error where
  "oddContent = runtimePanic ''index out of range''"

fun getPairs :: "node list \<Rightarrow> string \<Rightarrow> nat \<Rightarrow> error + (nat \<times> node) option" where
  "getPairs [] key i = Inr None"
| "getPairs [k] key i = Inl oddContent"
| "getPairs (k # v # rest) key i =
     (if Value k = key then Inr (Some (i + 1, v)) else getPairs rest key (i + 2))"

text \<open>
  \<^verbatim>\<open>Get\<close> returns a pointer to the value node or nil. \<open>GetAt\<close> is that pointer: the
  index of the value in Content together with the node there; \<open>Get\<close> is the node alone.
\<close>

definition GetAt :: "node \<Rightarrow> string \<Rightarrow> error + (nat \<times> node) option" where
  "GetAt n key = (if Kind n \<noteq> MappingNode then Inr None else getPairs (Content n) key 0)"

definition Get :: "node \<Rightarrow> string \<Rightarrow> error + node option" where
  "Get n key = (case GetAt n key of Inl e \<Rightarrow> Inl e | Inr r \<Rightarrow> Inr (map_option snd r))"

fun hasKeyPairs :: "node list \<Rightarrow> node \<Rightarrow> error + bool" where
  "hasKeyPairs [] key = Inr False"
| "hasKeyPairs [k] key = Inl oddContent"
| "hasKeyPairs (k # v # rest) key =
     (if Value key = Value k then Inr True else hasKeyPairs rest key)"

definition HasKey :: "node \<Rightarrow> node \<Rightarrow> error + bool" where
  "HasKey n key = (if Kind n \<noteq> MappingNode then Inr False else hasKeyPairs (Content n) key)"

text \<open>
  \<^verbatim>\<open>Delete\<close>: the loop rebuilds Content without the pairs of the key and remembers the
  last value it dropped. The result is the node after the call and the removed value.
\<close>

fun deletePairs :: "node list \<Rightarrow> string \<Rightarrow> node list \<Rightarrow> node option
                    \<Rightarrow> error + (node list \<times> node option)" where
  "deletePairs [] key newContent ret = Inr (newContent, ret)"
| "deletePairs [k] key newContent ret = Inl oddContent"
| "deletePairs (k # v # rest) key newContent ret =
     (if Value k = key then deletePairs rest key newContent (Some v)
      else deletePairs rest key (newContent @ [k, v]) ret)"

definition Delete :: "node \<Rightarrow> string \<Rightarrow> error + (node \<times> node option)" where
  "Delete n key =
     (if Kind n \<noteq> MappingNode then Inr (n, None)
      else case deletePairs (Content n) key [] None of
             Inl e \<Rightarrow> Inl e
           | Inr (newContent, ret) \<Rightarrow>
               Inr (setContent n newContent, ret))"

text \<open>
  \<^verbatim>\<open>Put\<close>, first loop: the first pair whose key has the Value of \<open>key\<close> gets the new
  value; the old value is returned. \<open>None\<close> when no pair has the key.
\<close>

fun putExisting :: "node list \<Rightarrow> node \<Rightarrow> node \<Rightarrow> error + (node list \<times> node) option" where
  "putExisting [] key val = Inr None"
| "putExisting [k] key val = Inl oddContent"
| "putExisting (k # v # rest) key val =
     (if Value k = Value key then Inr (Some (k # val # rest, v))
      else case putExisting rest key val of
             Inl e \<Rightarrow> Inl e
           | Inr None \<Rightarrow> Inr None
           | Inr (Some (rest', old)) \<Rightarrow> Inr (Some (k # v # rest', old)))"

text \<open>
  \<^verbatim>\<open>Put\<close>, second loop: \<open>pos\<close> is the index \<open>i\<close> (even) of the first key with
  \<^verbatim>\<open>key.Value < n.Content[i].Value\<close>, the length of Content when there is none. The
  argument \<open>i\<close> is the index of the head of the list.
\<close>

fun putPos :: "node list \<Rightarrow> node \<Rightarrow> nat \<Rightarrow> nat" where
  "putPos [] key i = i"
| "putPos [k] key i = (if Value key < Value k then i else i + 1)"
| "putPos (k # v # rest) key i = (if Value key < Value k then i else putPos rest key (i + 2))"

definition Put :: "node \<Rightarrow> node \<Rightarrow> node \<Rightarrow> error + (node \<times> node option)" where
  "Put n key val =
     (if Kind n \<noteq> MappingNode then Inr (n, None)
      else case putExisting (Content n) key val of
             Inl e \<Rightarrow> Inl e
           | Inr (Some (content', old)) \<Rightarrow>
               Inr (setContent n content', Some old)
           | Inr None \<Rightarrow>
               (let pos = (if Kind key = ScalarNode then putPos (Content n) key 0
                           else length (Content n))
                in Inr (setContent n (take pos (Content n) @ [key, val] @ drop pos (Content n)),
                        None)))"

definition Append :: "node \<Rightarrow> node \<Rightarrow> node" where
  "Append n val =
     (if Kind n \<noteq> SequenceNode then n
      else setContent n (Content n @ [val]))"

text \<open>
  \<^verbatim>\<open>Merge\<close>. The receiver \<open>n\<close> is changed in place and returned unless the kinds differ
  or the nodes are scalars, where \<open>other\<close> is returned. \<open>mergePairs n content\<close> is the
  \<^verbatim>\<open>other.ForEachMap\<close> loop over the Content of \<open>other\<close> that is still to come, \<open>n\<close>
  being the receiver as the earlier iterations left it. \<^verbatim>\<open>n.Get(k.Value)\<close> is not nil
  where \<^verbatim>\<open>n.HasKey(k)\<close> holds; the model has the nil dereference all the same.
\<close>

fun Merge :: "node \<Rightarrow> node \<Rightarrow> error + node"
and mergePairs :: "node \<Rightarrow> node list \<Rightarrow> error + node" where
  "Merge n (Node okind ovalue otag oline ofile ocontent) =
     (if Kind n \<noteq> okind then Inr (Node okind ovalue otag oline ofile ocontent)
      else case Kind n of
             MappingNode \<Rightarrow> mergePairs n ocontent
           | SequenceNode \<Rightarrow> Inr (fold (\<lambda>v acc. Append acc v) ocontent n)
           | _ \<Rightarrow> Inr (Node okind ovalue otag oline ofile ocontent))"
| "mergePairs n [] = Inr n"
| "mergePairs n [k] = Inl oddContent"
| "mergePairs n (k # v # rest) =
     (case HasKey n k of
        Inl e \<Rightarrow> Inl e
      | Inr True \<Rightarrow>
          (case Get n (Value k) of
             Inl e \<Rightarrow> Inl e
           | Inr None \<Rightarrow> Inl (runtimePanic ''nil pointer dereference'')
           | Inr (Some c) \<Rightarrow>
               (case Merge c v of
                  Inl e \<Rightarrow> Inl e
                | Inr nv \<Rightarrow>
                    (case Put n k nv of
                       Inl e \<Rightarrow> Inl e
                     | Inr (n', _) \<Rightarrow> mergePairs n' rest)))
      | Inr False \<Rightarrow>
          (case Put n k v of
             Inl e \<Rightarrow> Inl e
           | Inr (n', _) \<Rightarrow> mergePairs n' rest))"

section \<open>JSON Pointers (util.go)\<close>

subsection \<open>The string functions of the Go library that the code calls\<close>

text \<open>\<^verbatim>\<open>strings.Split(s, sep)\<close> for a separator of one byte: never an empty list.\<close>

fun splitAcc :: "string \<Rightarrow> char \<Rightarrow> string \<Rightarrow> string list" where
  "splitAcc [] sep cur = [cur]"
| "splitAcc (c # cs) sep cur =
     (if c = sep then cur # splitAcc cs sep [] else splitAcc cs sep (cur @ [c]))"

definition Split :: "string \<Rightarrow> char \<Rightarrow> string list" where
  "Split s sep = splitAcc s sep []"

fun Join :: "string list \<Rightarrow> string \<Rightarrow> string" where
  "Join [] sep = []"
| "Join [x] sep = x"
| "Join (x # y # ys) sep = x @ sep @ Join (y # ys) sep"

text \<open>
  \<^verbatim>\<open>strings.ReplaceAll(s, old, new)\<close> for a non-empty \<open>old\<close>, as at every call in the
  code: the matches are taken from left to right and do not overlap.
\<close>

function ReplaceAll :: "string \<Rightarrow> string \<Rightarrow> string \<Rightarrow> string" where
  "ReplaceAll s old new =
     (if s = [] \<or> old = [] then s
      else if prefix old s then new @ ReplaceAll (drop (length old) s) old new
      else hd s # ReplaceAll (tl s) old new)"
  by pat_completeness auto
termination
  by (relation "measure (\<lambda>(s, old, new). length s)") auto

declare ReplaceAll.simps [simp del]

text \<open>\<^verbatim>\<open>strings.Contains(s, sub)\<close>.\<close>

fun Contains :: "string \<Rightarrow> string \<Rightarrow> bool" where
  "Contains [] sub = (sub = [])"
| "Contains (c # cs) sub = (prefix sub (c # cs) \<or> Contains cs sub)"

text \<open>
  \<^verbatim>\<open>strconv.Atoi\<close> where \<^verbatim>\<open>int\<close> has 64 bits: an optional sign, then one or more decimal
  digits, and a value that fits; \<open>None\<close> is the error.
\<close>

definition isDigit :: "char \<Rightarrow> bool" where
  "isDigit c = (CHR ''0'' \<le> c \<and> c \<le> CHR ''9'')"

definition digitsValue :: "string \<Rightarrow> int" where
  "digitsValue ds = foldl (\<lambda>acc c. 10 * acc + (int (of_char c) - 48)) 0 ds"

definition Atoi :: "string \<Rightarrow> int option" where
  "Atoi s =
     (let neg = (s \<noteq> [] \<and> hd s = CHR ''-'');
          ds = (if s \<noteq> [] \<and> (hd s = CHR ''-'' \<or> hd s = CHR ''+'') then tl s else s)
      in if ds = [] \<or> \<not> list_all isDigit ds then None
         else let v = (if neg then - digitsValue ds else digitsValue ds)
              in if v < - (2 ^ 63) \<or> 2 ^ 63 - 1 < v then None else Some v)"

subsection \<open>Tokens and pointers\<close>

record jsonPointerToken =
  String :: string
  IsIndex :: bool
  Index :: int
  Original :: string
  Path :: string

definition IsLastIndex :: "jsonPointerToken \<Rightarrow> bool" where
  "IsLastIndex t = (IsIndex t \<and> Index t < 0)"

type_synonym jsonPointer = "jsonPointerToken list"

text \<open>
  \<^verbatim>\<open>Pop\<close> slices \<^verbatim>\<open>p[0 : len(p)-1]\<close> and reads \<^verbatim>\<open>p[len(p)-1]\<close>: it panics on the empty
  pointer (\<open>None\<close>), which \<open>parseJSONPointer\<close> never returns.
\<close>

definition Pop :: "jsonPointer \<Rightarrow> (jsonPointer \<times> jsonPointerToken) option" where
  "Pop p = (if p = [] then None else Some (butlast p, last p))"

definition jsonPointer_String :: "jsonPointer \<Rightarrow> string" where
  "jsonPointer_String p = ''/'' @ Join (map Original p) ''/''"

text \<open>The token that the loop of \<open>parseJSONPointer\<close> builds from part \<open>i\<close>.\<close>

definition parseToken :: "string list \<Rightarrow> nat \<Rightarrow> string \<Rightarrow> jsonPointerToken" where
  "parseToken parts i part =
     (let str = ReplaceAll (ReplaceAll part ''~1'' ''/'') ''~0'' ''~'';
          t0 = \<lparr> String = str, IsIndex = False, Index = 0, Original = part,
                 Path = ''/'' @ Join (take (i + 1) parts) ''/'' \<rparr>;
          t1 = (case Atoi str of
                  Some v \<Rightarrow> if v > - 1 then t0\<lparr> Index := v, IsIndex := True \<rparr> else t0
                | None \<Rightarrow> t0)
      in if str = ''-'' then t1\<lparr> Index := - 1, IsIndex := True \<rparr> else t1)"

definition parseJSONPointer :: "string \<Rightarrow> error + jsonPointer" where
  "parseJSONPointer path =
     (if \<not> prefix ''/'' path then Inl (Errorf ''Invalid JSON Pointer: %s'' [S path])
      else let parts = Split (tl path) CHR ''/''
           in Inr (map (\<lambda>i. parseToken parts i (parts ! i)) [0 ..< length parts]))"

section \<open>Resolving a pointer (node.go)\<close>

text \<open>
  A pointer to a node of the tree is the node's address: the indices into Content on
  the way down from the root. \<open>updateAt n a f\<close> is the tree after the node at address
  \<open>a\<close> has been changed in place by \<open>f\<close>.
\<close>

type_synonym addr = "nat list"

fun nodeAt :: "node \<Rightarrow> addr \<Rightarrow> node option" where
  "nodeAt n [] = Some n"
| "nodeAt n (i # a) = (if i < length (Content n) then nodeAt (Content n ! i) a else None)"

fun updateAt :: "node \<Rightarrow> addr \<Rightarrow> (node \<Rightarrow> node) \<Rightarrow> node" where
  "updateAt n [] f = f n"
| "updateAt n (i # a) f =
     (if i < length (Content n)
      then setContent n ((Content n)[i := updateAt (Content n ! i) a f])
      else n)"

text \<open>
  \<open>findNodeByJSONPointer n ts\<close> is the source's \<^verbatim>\<open>findNodeByJSONPointer(n, pointer, index)\<close>
  with \<open>ts\<close> the tokens \<^verbatim>\<open>pointer[index:]\<close>. It returns the node found and its address
  below \<open>n\<close>. Where the source returns \<^verbatim>\<open>n, errAfterLastElement\<close> the model returns the
  error alone: the only caller drops the node when there is an error.
\<close>

fun findNodeByJSONPointer :: "node \<Rightarrow> jsonPointer \<Rightarrow> error + (addr \<times> node)" where
  "findNodeByJSONPointer n [] = Inr ([], n)"
| "findNodeByJSONPointer n (t # ts) =
     (case (if Kind n = MappingNode then GetAt n (String t) else Inr None) of
        Inl e \<Rightarrow> Inl e
      | Inr (Some (j, c)) \<Rightarrow>
          (case findNodeByJSONPointer c ts of
             Inl e \<Rightarrow> Inl e
           | Inr (a, found) \<Rightarrow> Inr (j # a, found))
      | Inr None \<Rightarrow>
          if \<not> IsIndex t then Inl errNotFound
          else if Kind n \<noteq> SequenceNode
          then Inl (Errorf ''can not evaluate an index %d on %s object''
                      [D (Index t), S (KindString n)])
          else if Index t < 0 then Inl errAfterLastElement
          else if Index t \<ge> int (length (Content n))
          then Inl (Errorf ''out of bounds index %d'' [D (Index t)])
          else (case findNodeByJSONPointer (Content n ! nat (Index t)) ts of
                  Inl e \<Rightarrow> Inl e
                | Inr (a, found) \<Rightarrow> Inr (nat (Index t) # a, found)))"

text \<open>
  \<^verbatim>\<open>FindNodeByJSONPointer\<close>. An error of the walk is turned into a new error by
  \<^verbatim>\<open>fmt.Errorf("%s: %s", path, err.Error())\<close>: the new error carries the text of the old
  one, not the old one. A panic is not an error value and passes through.
\<close>

definition FindNodeByJSONPointer :: "node \<Rightarrow> string \<Rightarrow> error + (addr \<times> node)" where
  "FindNodeByJSONPointer n path =
     (case parseJSONPointer path of
        Inl err \<Rightarrow> Inl err
      | Inr p \<Rightarrow>
          if path = ''/'' then Inr ([], n)
          else (case findNodeByJSONPointer n p of
                  Inl err \<Rightarrow> if isPanic err then Inl err
                             else Inl (Errorf ''%s: %s'' [S path, E err])
                | Inr ret \<Rightarrow> Inr ret))"

section \<open>The patch interpreter (load.go)\<close>

text \<open>
  \<^verbatim>\<open>newStringNode(s, file)\<close>: a fresh \<^verbatim>\<open>yaml.Node\<close> after \<^verbatim>\<open>SetString(s)\<close>, which makes it a
  scalar tagged \<^verbatim>\<open>!!str\<close> (for a string that is valid UTF-8).
\<close>

definition newStringNode :: "string \<Rightarrow> string \<Rightarrow> node" where
  "newStringNode s file = Node ScalarNode s ''!!str'' 0 file []"

text \<open>
  Modelled from the spec: \<^verbatim>\<open>newMappingNode\<close> and \<^verbatim>\<open>newSequenceNode\<close> are called by
  \<^verbatim>\<open>ensureJSONPointerParent\<close> and defined in no file of the sources. The spec has the
  patch interpreter "auto-create" a missing "Mapping or Sequence" container: an empty
  node of that kind, in the file given.
\<close>

definition newMappingNode :: "string \<Rightarrow> node" where
  "newMappingNode file = Node MappingNode [] [] 0 file []"

definition newSequenceNode :: "string \<Rightarrow> node" where
  "newSequenceNode file = Node SequenceNode [] [] 0 file []"

text \<open>
  \<^verbatim>\<open>ensureJSONPointerParent\<close>. The loop moves \<^verbatim>\<open>parent\<close> one level down per token and
  stops before the last token; the model returns the subtree below \<open>parent\<close> as the
  loop leaves it, and the error. Where the token is an index, the parent a Sequence
  and \<^verbatim>\<open>len(parent.Content) <= t.Index\<close>, the source reads \<^verbatim>\<open>parent.Content[t.Index]\<close>,
  which is out of range.
\<close>

fun ensureJSONPointerParent :: "node \<Rightarrow> jsonPointer \<Rightarrow> node \<times> error option" where
  "ensureJSONPointerParent parent [] = (parent, None)"
| "ensureJSONPointerParent parent [t] = (parent, None)"
| "ensureJSONPointerParent parent (t # n # rest) =
     (if IsIndex t \<and> Kind parent = SequenceNode \<and> int (length (Content parent)) \<le> Index t
      then (parent, Some (runtimePanic ''index out of range''))
      else if Kind parent = MappingNode then
        (case Get parent (String t) of
           Inl e \<Rightarrow> (parent, Some e)
         | Inr v \<Rightarrow>
             (case (if v = None
                    then Put parent (newStringNode (String t) (File parent))
                           (if IsIndex n then newSequenceNode (File parent)
                            else newMappingNode (File parent))
                    else Inr (parent, None)) of
                Inl e \<Rightarrow> (parent, Some e)
              | Inr (parent', _) \<Rightarrow>
                  (case GetAt parent' (String t) of
                     Inl e \<Rightarrow> (parent', Some e)
                   | Inr None \<Rightarrow> (parent', Some (runtimePanic ''nil pointer dereference''))
                   | Inr (Some (j, c)) \<Rightarrow>
                       (case ensureJSONPointerParent c (n # rest) of
                          (c', err) \<Rightarrow> (setContent parent' ((Content parent')[j := c']), err)))))
      else (parent, Some (Errorf ''can not evaluate an index %s on %T object''
                            [S (String t), S ''*yammy.node''])))"

text \<open>
  \<^verbatim>\<open>jsonPatchAdd(n, jp, newValue)\<close> changes the tree \<open>n\<close> in place and returns an error or
  nil: the model returns the tree after the call and the error. \<open>newValue\<close> is a node
  (the source also accepts nil, the value of a patch that has none).

  The Sequence branch inserts with
  \<^verbatim>\<open>target.Content = append(target.Content[:i+1], target.Content[i:]...)\<close>. The slice
  expression \<^verbatim>\<open>target.Content[:i+1]\<close> is bounded by the capacity of the slice, not by
  its length: for \<open>i\<close> below the length it is always in range; for \<open>i\<close> equal to the
  length it is in range only when the slice has room left, and panics otherwise. The
  capacity is no part of the tree's value, so the model takes \<open>spare\<close>, the capacity
  of \<^verbatim>\<open>target.Content\<close> minus its length, as an argument. A Content that was never
  assigned (a Sequence parsed from \<^verbatim>\<open>[]\<close>) is the nil slice, whose capacity is 0.
\<close>

definition jsonPatchAdd :: "node \<Rightarrow> nat \<Rightarrow> jsonPointer \<Rightarrow> node \<Rightarrow> node \<times> error option" where
  "jsonPatchAdd n spare jp newValue =
     (case Pop jp of
        None \<Rightarrow> (n, Some (runtimePanic ''slice bounds out of range''))
      | Some (parent, child) \<Rightarrow>
          (case (case FindNodeByJSONPointer n (jsonPointer_String parent) of
                   Inl err \<Rightarrow>
                     if errorsIs_errNotFound err
                     then (case ensureJSONPointerParent n jp of
                             (n', Some err') \<Rightarrow> (n', Inl err')
                           | (n', None) \<Rightarrow>
                               (n', FindNodeByJSONPointer n' (jsonPointer_String parent)))
                     else (n, Inl err)
                 | Inr ret \<Rightarrow> (n, Inr ret)) of
             (n1, Inl err) \<Rightarrow> (n1, Some err)
           | (n1, Inr (a, target)) \<Rightarrow>
               if IsIndex child \<and> Kind target = SequenceNode then
                 (let i = Index child; content = Content target in
                  if i < 0 then (updateAt n1 a (\<lambda>t. setContent t (content @ [newValue])), None)
                  else if i > int (length content)
                  then (n1, Some (Errorf
                          ''can not perform an add value before index %d(path: %s, size: %d)''
                          [D (Index child), S (jsonPointer_String parent),
                           D (int (length content))]))
                  else if nat i + 1 > length content + spare
                  then (n1, Some (runtimePanic ''slice bounds out of range''))
                  else (updateAt n1 a (\<lambda>t. setContent t
                          (take (nat i) content @ [newValue] @ drop (nat i) content)), None))
               else if Kind target = MappingNode then
                 (case Put target (newStringNode (String child) (File n1)) newValue of
                    Inl e \<Rightarrow> (n1, Some e)
                  | Inr (target', _) \<Rightarrow> (updateAt n1 a (\<lambda>t. target'), None))
               else (n1, Some (Errorf
                       ''can not perform an add '%s' key operation on (an) %s node(path: %s)''
                       [S (Original child), S (KindString target),
                        S (jsonPointer_String parent)]))))"

definition jsonPatchRemove :: "node \<Rightarrow> jsonPointer \<Rightarrow> node \<times> error option" where
  "jsonPatchRemove n jp =
     (case Pop jp of
        None \<Rightarrow> (n, Some (runtimePanic ''slice bounds out of range''))
      | Some (parent, child) \<Rightarrow>
          (case FindNodeByJSONPointer n (jsonPointer_String parent) of
             Inl err \<Rightarrow> (n, Some err)
           | Inr (a, target) \<Rightarrow>
               if IsIndex child \<and> \<not> IsLastIndex child \<and> Kind target = SequenceNode then
                 (let i = Index child; content = Content target in
                  if i \<ge> int (length content)
                  then (n, Some (Errorf
                          ''can not remove a value at index %d(path: %s, size: %d)''
                          [D (Index child), S (jsonPointer_String parent),
                           D (int (length content))]))
                  else (updateAt n a (\<lambda>t. setContent t
                          (take (nat i) content @ drop (nat i + 1) content)), None))
               else if Kind target = MappingNode then
                 (case Delete target (String child) of
                    Inl e \<Rightarrow> (n, Some e)
                  | Inr (target', removed) \<Rightarrow>
                      (updateAt n a (\<lambda>t. target'),
                       if removed = None
                       then Some (Errorf ''can not remove a value %s(value does not exist)''
                                    [S (jsonPointer_String jp)])
                       else None))
               else (n, Some (Errorf
                       ''can not perform a remove operation on (an) %s node(path: %s)''
                       [S (KindString target), S (jsonPointer_String parent)]))))"

text \<open>
  \<^verbatim>\<open>processPatchNode\<close> from the point where it has read the entries \<^verbatim>\<open>path\<close>, \<^verbatim>\<open>op\<close> and
  \<^verbatim>\<open>value\<close> of the patch node; \<open>wh\<close> is \<^verbatim>\<open>patchNode.Where()\<close>. An error of the operation
  is wrapped into a directive error that carries its text. For \<^verbatim>\<open>replace\<close> the error of
  the removal is dropped; a removal that spliced an element out of a Sequence has left
  the slice one more element of room.
\<close>

definition Where :: "node \<Rightarrow> fmtarg" where
  "Where n = F ''%s(line:%d)'' [S (File n), D (Line n)]"

definition directiveError :: "fmtarg \<Rightarrow> error \<Rightarrow> error" where
  "directiveError wh err =
     (if isPanic err then err else New ErrDirective ''%s: %s'' None [wh, E err])"

definition processPatchNode ::
  "node \<Rightarrow> nat \<Rightarrow> fmtarg \<Rightarrow> string \<Rightarrow> string \<Rightarrow> node \<Rightarrow> node \<times> error option" where
  "processPatchNode n spare wh path op newValue =
     (case parseJSONPointer path of
        Inl err \<Rightarrow> (n, Some (directiveError wh err))
      | Inr jp \<Rightarrow>
          if op = ''add'' then
            (case jsonPatchAdd n spare jp newValue of
               (n', Some err) \<Rightarrow> (n', Some (directiveError wh err))
             | (n', None) \<Rightarrow> (n', None))
          else if op = ''remove'' then
            (case jsonPatchRemove n jp of
               (n', Some err) \<Rightarrow> (n', Some (directiveError wh err))
             | (n', None) \<Rightarrow> (n', None))
          else if op = ''replace'' then
            (case jsonPatchRemove n jp of
               (n', Some (runtimePanic msg)) \<Rightarrow> (n', Some (runtimePanic msg))
             | (n', removeErr) \<Rightarrow>
                 (case jsonPatchAdd n' (if removeErr = None then spare + 1 else spare)
                         jp newValue of
                    (n'', Some err) \<Rightarrow>
                      if \<not> errorsIs_errNotFound err then (n'', Some (directiveError wh err))
                      else (n'', None)
                  | (n'', None) \<Rightarrow> (n'', None)))
          else (n, Some (New ErrDirective ''%s: unsupported patch operation: %s'' None
                           [wh, S op])))"

section \<open>The variable expander (util.go)\<close>

definition isVarName :: "char \<Rightarrow> nat \<Rightarrow> bool" where
  "isVarName c i =
     (if (CHR ''a'' \<le> c \<and> c \<le> CHR ''z'') \<or> (CHR ''A'' \<le> c \<and> c \<le> CHR ''Z'') then True
      else if i \<noteq> 0 then (CHR ''0'' \<le> c \<and> c \<le> CHR ''9'') \<or> c = CHR ''_'' \<or> c = CHR ''-''
      else False)"

record vvv =
  start :: nat
  end' :: nat
  name :: string
  def :: string
  tag :: string

subsection \<open>Resolvers\<close>

text \<open>A \<^verbatim>\<open>VarResolver\<close> returns the value of a key or an error.\<close>

type_synonym VarResolver = "string \<Rightarrow> error + string"

definition varNotFound :: "string \<Rightarrow> error" where
  "varNotFound key = New ErrVarNotFound ''%s not found'' None [S key]"

fun newCompositeVarResolver :: "VarResolver list \<Rightarrow> VarResolver" where
  "newCompositeVarResolver [] key = Inl (varNotFound key)"
| "newCompositeVarResolver (r # resolvers) key =
     (case r key of
        Inl err \<Rightarrow>
          if errorsIs err ErrVarNotFound then newCompositeVarResolver resolvers key
          else Inl err
      | Inr v \<Rightarrow> Inr v)"

text \<open>\<open>vars\<close> is a pointer in the source: \<open>None\<close> is nil.\<close>

definition newDirectiveVarResolver :: "node option \<Rightarrow> VarResolver" where
  "newDirectiveVarResolver vars key =
     (case vars of
        None \<Rightarrow> Inl (varNotFound key)
      | Some vs \<Rightarrow>
          if Kind vs = MappingNode then
            (case Get vs key of
               Inl e \<Rightarrow> Inl e
             | Inr (Some v) \<Rightarrow>
                 if Kind v \<noteq> ScalarNode
                 then Inl (New ErrDirective ''variable %s must be a scalar node'' None [S key])
                 else Inr (Value v)
             | Inr None \<Rightarrow> Inl (varNotFound key))
          else Inl (varNotFound key))"

text \<open>
  \<^verbatim>\<open>envVarResolver\<close>; the environment \<^verbatim>\<open>os.LookupEnv\<close> reads is the map \<open>env\<close>.
\<close>

definition envVarResolver :: "(string \<rightharpoonup> string) \<Rightarrow> VarResolver" where
  "envVarResolver env key =
     (case env key of Some ev \<Rightarrow> Inr ev | None \<Rightarrow> Inl (varNotFound key))"

text \<open>
  The resolver \<^verbatim>\<open>Load\<close> builds when no resolver is configured: the environment, then
  the variables of the directives.
\<close>

definition defaultVarResolver :: "(string \<rightharpoonup> string) \<Rightarrow> node \<Rightarrow> VarResolver" where
  "defaultVarResolver env variables =
     newCompositeVarResolver [envVarResolver env, newDirectiveVarResolver (Some variables)]"

subsection \<open>Quoting and the guessed type\<close>

text \<open>
  \<^verbatim>\<open>parseVarString(v, i, q)\<close>: the loop after the opening quote at \<open>i\<close>. The end is the
  index after the closing quote, \<open>None\<close> for the source's \<open>-1\<close>.
\<close>

function parseVarStringLoop :: "string \<Rightarrow> nat \<Rightarrow> char \<Rightarrow> string \<Rightarrow> string \<times> nat option" where
  "parseVarStringLoop v i q buf =
     (if i < length v then
        (let c = v ! i in
         if c = CHR 0x5C \<and> i \<noteq> length v - 1 then
           (if v ! (i + 1) = q then parseVarStringLoop v (i + 2) q (buf @ [q])
            else if v ! (i + 1) = CHR 0x5C then parseVarStringLoop v (i + 2) q (buf @ [CHR 0x5C])
            else parseVarStringLoop v (i + 1) q (buf @ [c]))
         else if c = q then (buf, Some (i + 1))
         else parseVarStringLoop v (i + 1) q (buf @ [c]))
      else (buf, None))"
  by pat_completeness auto
termination
  by (relation "measure (\<lambda>(v, i, q, buf). length v - i)") auto

declare parseVarStringLoop.simps [simp del]

definition parseVarString :: "string \<Rightarrow> nat \<Rightarrow> char \<Rightarrow> string \<times> nat option" where
  "parseVarString v i q = parseVarStringLoop v (i + 1) q []"

text \<open>
  \<^verbatim>\<open>guessScalarNodeTag\<close>. \<open>parseFloatOk s\<close> says that \<^verbatim>\<open>strconv.ParseFloat(s, 64)\<close> returns
  no error; the function belongs to the Go library and is an argument of the model.
\<close>

definition guessScalarNodeTag :: "(string \<Rightarrow> bool) \<Rightarrow> string \<Rightarrow> string" where
  "guessScalarNodeTag parseFloatOk s =
     (if s = ''null'' then ''null''
      else if s = ''true'' \<or> s = ''false'' \<or> s = ''yes'' \<or> s = ''no'' \<or> s = ''on'' \<or> s = ''off''
      then ''bool''
      else if Atoi s \<noteq> None then ''int''
      else if parseFloatOk s then ''float''
      else ''str'')"

text \<open>The class \<^verbatim>\<open>\s\<close> of Go's regular expressions: tab, newline, form feed, return, space.\<close>

definition isSpace :: "char \<Rightarrow> bool" where
  "isSpace c = (c = CHR 0x09 \<or> c = CHR 0x0A \<or> c = CHR 0x0C \<or> c = CHR 0x0D \<or> c = CHR 0x20)"

definition shouldQuote :: "(string \<Rightarrow> bool) \<Rightarrow> string \<Rightarrow> bool" where
  "shouldQuote parseFloatOk s =
     (if Contains s ''}'' then True
      else if Contains s [CHR 0x22] then True
      else if guessScalarNodeTag parseFloatOk s \<noteq> ''str'' then True
      else list_ex isSpace s)"

definition quote :: "string \<Rightarrow> string" where
  "quote s =
     [CHR 0x22]
     @ ReplaceAll (ReplaceAll s [CHR 0x5C] [CHR 0x5C, CHR 0x5C]) [CHR 0x22] [CHR 0x5C, CHR 0x22]
     @ [CHR 0x22]"

subsection \<open>The scanner of \<open>expandVar\<close>\<close>

text \<open>
  The two inner loops of the scanner: \<open>nameEnd v j\<close> is where the run of name bytes
  that starts at \<open>j\<close> ends, \<open>braceFrom v j\<close> the index of the first \<^verbatim>\<open>}\<close> at or after
  \<open>j\<close>, the length of \<open>v\<close> when there is none.
\<close>

function nameEnd :: "string \<Rightarrow> nat \<Rightarrow> nat" where
  "nameEnd v j = (if j < length v \<and> isVarName (v ! j) j then nameEnd v (j + 1) else j)"
  by pat_completeness auto
termination
  by (relation "measure (\<lambda>(v, j). length v - j)") auto

declare nameEnd.simps [simp del]

function braceFrom :: "string \<Rightarrow> nat \<Rightarrow> nat" where
  "braceFrom v j = (if j < length v \<and> v ! j \<noteq> CHR ''}'' then braceFrom v (j + 1) else j)"
  by pat_completeness auto
termination
  by (relation "measure (\<lambda>(v, j). length v - j)") auto

declare braceFrom.simps [simp del]

text \<open>\<^verbatim>\<open>v[i:j]\<close> for \<open>i \<le> j \<le> length v\<close>.\<close>

definition slice :: "string \<Rightarrow> nat \<Rightarrow> nat \<Rightarrow> string" where
  "slice v i j = take (j - i) (drop i v)"

text \<open>
  The main loop of \<open>expandVar\<close>, one call per iteration: \<open>i\<close> is the index the
  iteration starts with, and the index passed on is the one the next iteration starts
  with (after the \<^verbatim>\<open>i++\<close> of the \<^verbatim>\<open>for\<close>, which a \<^verbatim>\<open>continue\<close> runs too). \<open>varStarts\<close> is
  \<open>-1\<close> in the source until state 0 sets it; the model starts it at 0, and it is
  read only in states 3 and 4, which are entered through state 0.
\<close>

function scanVars ::
  "(string \<Rightarrow> bool) \<Rightarrow> string \<Rightarrow> nat \<Rightarrow> nat \<Rightarrow> nat \<Rightarrow> string \<Rightarrow> vvv list \<Rightarrow> vvv list" where
  "scanVars parseFloatOk v i state varStarts varName vars =
     (if i < length v then
        (let c = v ! i in
         if state = 0 then
           (if c = CHR ''$'' \<and> i \<noteq> length v - 1 then
              (let c2 = v ! (i + 1) in
               if c2 = CHR ''$'' then scanVars parseFloatOk v (i + 2) 0 varStarts varName vars
               else if c2 = CHR ''{'' then scanVars parseFloatOk v (i + 1) 1 i varName vars
               else scanVars parseFloatOk v (i + 1) 0 varStarts varName vars)
            else scanVars parseFloatOk v (i + 1) 0 varStarts varName vars)
         else if state = 1 then scanVars parseFloatOk v (i + 1) 2 varStarts varName vars
         else if state = 2 then
           (let j = nameEnd v i; varName' = slice v i j in
            if varName' = [] then scanVars parseFloatOk v j 0 varStarts varName' vars
            else scanVars parseFloatOk v j 3 varStarts varName' vars)
         else if state = 3 then
           (if c = CHR '':'' then scanVars parseFloatOk v (i + 1) 4 varStarts varName vars
            else if c = CHR ''}'' then
              scanVars parseFloatOk v (i + 1) 0 varStarts varName
                (vars @ [\<lparr> start = varStarts, end' = i + 1, name = varName, def = [],
                           tag = ''str'' \<rparr>])
            else scanVars parseFloatOk v (i + 1) 3 varStarts varName vars)
         else if state = 4 then
           (if c = CHR 0x22 then
              (case parseVarString v i c of
                 (val, None) \<Rightarrow> scanVars parseFloatOk v (i + 1) 0 varStarts varName vars
               | (val, Some e) \<Rightarrow>
                   if length v = e then scanVars parseFloatOk v (i + 1) 0 varStarts varName vars
                   else if v ! e = CHR ''}'' then
                     scanVars parseFloatOk v e 0 varStarts varName
                       (vars @ [\<lparr> start = varStarts, end' = e + 1, name = varName, def = val,
                                  tag = ''str'' \<rparr>])
                   else scanVars parseFloatOk v e 0 varStarts varName vars)
            else
              (let j = braceFrom v i in
               if j = length v then scanVars parseFloatOk v (i + 1) 0 varStarts varName vars
               else scanVars parseFloatOk v j 0 varStarts varName
                      (vars @ [\<lparr> start = varStarts, end' = j + 1, name = varName,
                                 def = slice v i j,
                                 tag = guessScalarNodeTag parseFloatOk (slice v i j) \<rparr>])))
         else scanVars parseFloatOk v (i + 1) state varStarts varName vars)
      else vars)"
  by pat_completeness auto
termination
proof -
  have pvs: "\<And>v i q buf val e. parseVarStringLoop v i q buf = (val, Some e) \<Longrightarrow> i < e"
  proof -
    fix v i q buf val e
    show "parseVarStringLoop v i q buf = (val, Some e) \<Longrightarrow> i < e"
    proof (induction v i q buf rule: parseVarStringLoop.induct)
      case (1 v i q buf)
      from "1.prems" have "i < length v"
        by (subst (asm) parseVarStringLoop.simps) (simp split: if_splits)
      with "1.prems" "1.IH" show ?case
        by (subst (asm) parseVarStringLoop.simps) (fastforce simp: Let_def split: if_splits)
    qed
  qed
  have ne: "\<And>v j. j \<le> nameEnd v j"
  proof -
    fix v j show "j \<le> nameEnd v j"
      by (induction v j rule: nameEnd.induct) (subst nameEnd.simps, auto)
  qed
  have bf: "\<And>v j. j \<le> braceFrom v j"
  proof -
    fix v j show "j \<le> braceFrom v j"
      by (induction v j rule: braceFrom.induct) (subst braceFrom.simps, auto)
  qed
  show ?thesis
    apply (relation "measure (\<lambda>(pf, v, i, state, vs, vn, vars).
                       2 * (length v - i) + (if state = 0 then 0 else 1))")
    apply simp_all
    subgoal for v i using ne[of i v] by simp
    subgoal for v i using ne[of i v] by (auto simp: slice_def)
    subgoal for v i state x xa y x2
      using pvs[of v "Suc i" "v ! i" "[]" xa x2] by (simp add: parseVarString_def)
    subgoal for v i state x xa y x2
      using pvs[of v "Suc i" "v ! i" "[]" xa x2] by (simp add: parseVarString_def)
    subgoal for v i using bf[of i v] by simp
    done
qed

declare scanVars.simps [simp del]

subsection \<open>Re-assembly\<close>

text \<open>
  The second loop of \<open>expandVar\<close>, over the references the scanner found. \<open>nvars\<close> is
  \<^verbatim>\<open>len(vars)\<close>, \<open>offset\<close> and \<open>ret\<close> the loop's variables. The slice
  \<^verbatim>\<open>v[offset:vv.start]\<close> panics when its bounds are out of order. The body of the loop
  is in two parts: \<open>resolveVar\<close> is the call of the resolver with the fall-back to the
  default (the value \<^verbatim>\<open>resolved\<close>, or the error the loop returns), \<open>expandPiece\<close> the
  text that the body appends for the reference in either mode.
\<close>

definition resolveVar :: "VarResolver \<Rightarrow> bool \<Rightarrow> vvv \<Rightarrow> error + string" where
  "resolveVar resolv keepsVariables vv =
     (case resolv (name vv) of
        Inr resolved \<Rightarrow> Inr resolved
      | Inl err \<Rightarrow>
          if errorsIs err ErrVarNotFound
          then (if length (def vv) = 0 \<and> \<not> keepsVariables then Inl err else Inr (def vv))
          else Inl err)"

definition expandPiece ::
  "(string \<Rightarrow> bool) \<Rightarrow> bool \<Rightarrow> bool \<Rightarrow> vvv \<Rightarrow> string \<Rightarrow> string" where
  "expandPiece parseFloatOk keepsVariables isSingleVariable vv resolved =
     (if \<not> keepsVariables then
        (if length resolved = 0 \<and> isSingleVariable then [CHR 0x22, CHR 0x22]
         else if tag vv = ''str'' \<and> isSingleVariable \<and> shouldQuote parseFloatOk resolved
         then quote resolved
         else resolved)
      else
        (if length resolved = 0 then ''${'' @ name vv @ ''}''
         else if tag vv = ''str'' \<and> shouldQuote parseFloatOk resolved
         then ''${'' @ name vv @ '':'' @ quote resolved @ ''}''
         else ''${'' @ name vv @ '':'' @ resolved @ ''}''))"

fun assemble ::
  "(string \<Rightarrow> bool) \<Rightarrow> string \<Rightarrow> VarResolver \<Rightarrow> bool \<Rightarrow> nat \<Rightarrow> vvv list \<Rightarrow> nat \<Rightarrow> string
   \<Rightarrow> error + string" where
  "assemble parseFloatOk v resolv keepsVariables nvars [] offset ret =
     (if length v < offset then Inl (runtimePanic ''slice bounds out of range'')
      else Inr (ret @ drop offset v))"
| "assemble parseFloatOk v resolv keepsVariables nvars (vv # vars) offset ret =
     (if start vv < offset \<or> length v < start vv
      then Inl (runtimePanic ''slice bounds out of range'')
      else case resolveVar resolv keepsVariables vv of
             Inl err \<Rightarrow> Inl err
           | Inr resolved \<Rightarrow>
               assemble parseFloatOk v resolv keepsVariables nvars vars (end' vv)
                 (ret @ slice v offset (start vv)
                  @ expandPiece parseFloatOk keepsVariables
                      (nvars = 1 \<and> end' vv = length v \<and> start vv = 0) vv resolved))"

definition expandVar ::
  "(string \<Rightarrow> bool) \<Rightarrow> string \<Rightarrow> VarResolver \<Rightarrow> bool \<Rightarrow> error + string" where
  "expandVar parseFloatOk v resolv keepsVariables =
     (let vars = scanVars parseFloatOk v 0 0 0 [] [] in
      if length vars = 0 then Inr v
      else assemble parseFloatOk v resolv keepsVariables (length vars) vars 0 [])"

subsection \<open>Expanding the scalars of a tree (load.go)\<close>

text \<open>
  \<^verbatim>\<open>mustRootNode\<close>, on a node as the YAML library returns it: an empty document gives a
  fresh Mapping, a document its first child, anything else a panic.
\<close>

definition mustRootNode :: "node \<Rightarrow> error + node" where
  "mustRootNode nd =
     (if Kind nd = ZeroKind then Inr (Node MappingNode [] [] 0 [] [])
      else if Kind nd = DocumentNode
      then (if length (Content nd) < 1 then Inr nd else Inr (Content nd ! 0))
      else Inl (runtimePanic (''must be a document node, but got '' @ KindString nd)))"

text \<open>
  \<^verbatim>\<open>processVars\<close>. \<open>unmarshal s\<close> is the document node that \<^verbatim>\<open>yaml.Unmarshal\<close> reads from
  the text \<open>s\<close>, or its error; the parser belongs to the YAML library and is an
  argument of the model. The tree is changed in place: the model returns the tree as
  the call leaves it, and the error. \<^verbatim>\<open>n.SetString\<close> keeps the node a scalar and sets
  its Value; the Tag it sets is overwritten at once.
\<close>

fun processVars ::
  "(string \<Rightarrow> bool) \<Rightarrow> (string \<Rightarrow> error + node) \<Rightarrow> VarResolver \<Rightarrow> bool \<Rightarrow> node
   \<Rightarrow> node \<times> error option"
and processVarsMap ::
  "(string \<Rightarrow> bool) \<Rightarrow> (string \<Rightarrow> error + node) \<Rightarrow> VarResolver \<Rightarrow> bool \<Rightarrow> node list
   \<Rightarrow> node list \<times> error option"
and processVarsSeq ::
  "(string \<Rightarrow> bool) \<Rightarrow> (string \<Rightarrow> error + node) \<Rightarrow> VarResolver \<Rightarrow> bool \<Rightarrow> node list
   \<Rightarrow> node list \<times> error option" where
  "processVars parseFloatOk unmarshal resolver keepsVariables (Node k val tg ln fl content) =
     (case k of
        MappingNode \<Rightarrow>
          (case processVarsMap parseFloatOk unmarshal resolver keepsVariables content of
             (content', err) \<Rightarrow> (Node k val tg ln fl content', err))
      | SequenceNode \<Rightarrow>
          (case processVarsSeq parseFloatOk unmarshal resolver keepsVariables content of
             (content', err) \<Rightarrow> (Node k val tg ln fl content', err))
      | ScalarNode \<Rightarrow>
          if tg = ''!!str'' then
            (case expandVar parseFloatOk val resolver keepsVariables of
               Inl err \<Rightarrow> (Node k val tg ln fl content, Some err)
             | Inr newString \<Rightarrow>
                 if val \<noteq> newString then
                   (case unmarshal newString of
                      Inl err \<Rightarrow>
                        (Node k val tg ln fl content,
                         Some (New ErrYAML ''%s: failed to parse a variable'' (Some err)
                                 [Where (Node k val tg ln fl content)]))
                    | Inr d \<Rightarrow>
                        (case mustRootNode d of
                           Inl e \<Rightarrow> (Node k val tg ln fl content, Some e)
                         | Inr nd \<Rightarrow> (Node ScalarNode (Value nd) (Tag nd) ln fl content, None)))
                 else (Node k val tg ln fl content, None))
          else (Node k val tg ln fl content, None)
      | _ \<Rightarrow> (Node k val tg ln fl content, None))"
| "processVarsMap parseFloatOk unmarshal resolver keepsVariables [] = ([], None)"
| "processVarsMap parseFloatOk unmarshal resolver keepsVariables [k] = ([k], Some oddContent)"
| "processVarsMap parseFloatOk unmarshal resolver keepsVariables (k # v # rest) =
     (case processVars parseFloatOk unmarshal resolver keepsVariables v of
        (v', Some err) \<Rightarrow> (k # v' # rest, Some err)
      | (v', None) \<Rightarrow>
          (case processVarsMap parseFloatOk unmarshal resolver keepsVariables rest of
             (rest', err) \<Rightarrow> (k # v' # rest', err)))"
| "processVarsSeq parseFloatOk unmarshal resolver keepsVariables [] = ([], None)"
| "processVarsSeq parseFloatOk unmarshal resolver keepsVariables (v # rest) =
     (case processVars parseFloatOk unmarshal resolver keepsVariables v of
        (v', Some err) \<Rightarrow> (v' # rest, Some err)
      | (v', None) \<Rightarrow>
          (case processVarsSeq parseFloatOk unmarshal resolver keepsVariables rest of
             (rest', err) \<Rightarrow> (v' # rest', err)))"

section \<open>Notions the properties are stated with\<close>

text \<open>The key strings of a Mapping's Content: the Values at the even indices.\<close>

fun keysOf :: "node list \<Rightarrow> string list" where
  "keysOf [] = []"
| "keysOf [k] = [Value k]"
| "keysOf (k # v # rest) = Value k # keysOf rest"

text \<open>
  The invariant of the tree model: in every Mapping node of the tree, Content has even
  length (key, value, key, value, ...) and the key strings are pairwise distinct.
\<close>

fun wellFormed :: "node \<Rightarrow> bool" where
  "wellFormed (Node k v t l f c) =
     ((if k = MappingNode then even (length c) \<and> distinct (keysOf c) else True)
      \<and> list_all wellFormed c)"

section \<open>Resolving the pointer "/"\<close>

lemma parseJSONPointer_root: "parseJSONPointer ''/'' = Inr [parseToken [[]] 0 []]"
  by (simp add: parseJSONPointer_def Split_def)

text \<open>
  C9. For every tree, resolving the pointer "/" returns the root node itself (the node
  at the empty address) and no error: the one token of "/", the empty string, is not
  looked up as a key, also when the root is a Mapping that has the key "".
\<close>

theorem FindNodeByJSONPointer_root: "FindNodeByJSONPointer n ''/'' = Inr ([], n)"
  by (simp add: FindNodeByJSONPointer_def parseJSONPointer_root)

section \<open>Adding below a parent that is missing\<close>

lemma parseJSONPointer_error: "parseJSONPointer path = Inl err \<Longrightarrow> \<not> errorsIs_errNotFound err"
  by (auto simp: parseJSONPointer_def Let_def split: if_splits)

text \<open>
  No error that \<open>FindNodeByJSONPointer\<close> returns is \<open>errNotFound\<close>: the error of the
  walk has been replaced by a new one that holds its text.
\<close>

lemma FindNodeByJSONPointer_never_errNotFound:
  "FindNodeByJSONPointer n path = Inl err \<Longrightarrow> \<not> errorsIs_errNotFound err"
  by (auto simp: FindNodeByJSONPointer_def isPanic_def dest: parseJSONPointer_error
           split: sum.splits if_splits error.splits)

text \<open>
  So \<open>jsonPatchAdd\<close> never reaches \<open>ensureJSONPointerParent\<close>: when the parent does not
  resolve, the add returns that error and leaves the tree as it was.
\<close>

lemma jsonPatchAdd_parent_missing:
  assumes "Pop jp = Some (parent, child)"
    and "FindNodeByJSONPointer n (jsonPointer_String parent) = Inl err"
  shows "jsonPatchAdd n spare jp newValue = (n, Some err)"
  using assms FindNodeByJSONPointer_never_errNotFound[OF assms(2)]
  by (simp add: jsonPatchAdd_def)

text \<open>
  C1, at the input where the code departs from the claim. The patch
  \<^verbatim>\<open>{op: add, path: /a/b, value: v}\<close> on the empty Mapping: the claim has \<^verbatim>\<open>/a\<close> created
  as a Mapping and \<^verbatim>\<open>/a/b\<close> resolve to the value; the code returns the directive error
  "/a: can not find nodes matches path" and the tree is unchanged.
\<close>

theorem add_missing_parent_fails:
  "processPatchNode (Node MappingNode [] ''!!map'' 1 ''test.yml'' []) 0
     (Where (Node MappingNode [] ''!!map'' 3 ''test.yml'' [])) ''/a/b'' ''add''
     (Node ScalarNode ''v'' ''!!str'' 5 ''test.yml'' [])
   = (Node MappingNode [] ''!!map'' 1 ''test.yml'' [],
      Some (New ErrDirective ''%s: %s'' None
              [F ''%s(line:%d)'' [S ''test.yml'', D 3],
               E (Errorf ''%s: %s'' [S ''/a'', E errNotFound])]))"
  by code_simp

section \<open>Adding to a Sequence by index\<close>

text \<open>
  What \<open>jsonPatchAdd\<close> does when the parent resolves to a Sequence and the last token is
  an index: the token \<^verbatim>\<open>-\<close> appends; an index below the length inserts before the
  element there; an index above the length is refused with the index, the parent path
  and the length, the tree unchanged; the index equal to the length appends when the
  slice has room left and panics when it has none.
\<close>

lemma jsonPatchAdd_Sequence:
  assumes "Pop jp = Some (parent, child)"
    and "FindNodeByJSONPointer n (jsonPointer_String parent) = Inr (a, target)"
    and "Kind target = SequenceNode" and "IsIndex child"
  shows "jsonPatchAdd n spare jp newValue =
     (if Index child < 0 \<or> (Index child = int (length (Content target)) \<and> 0 < spare)
      then (updateAt n a (\<lambda>t. setContent t (Content target @ [newValue])), None)
      else if int (length (Content target)) < Index child
      then (n, Some (Errorf
              ''can not perform an add value before index %d(path: %s, size: %d)''
              [D (Index child), S (jsonPointer_String parent),
               D (int (length (Content target)))]))
      else if Index child = int (length (Content target))
      then (n, Some (runtimePanic ''slice bounds out of range''))
      else (updateAt n a (\<lambda>t. setContent t
              (take (nat (Index child)) (Content target) @ [newValue]
               @ drop (nat (Index child)) (Content target))), None))"
  using assms by (auto simp: jsonPatchAdd_def Let_def)

text \<open>
  C2, at the input where the code departs from the claim. The Sequence \<^verbatim>\<open>arr\<close> is empty
  as the loader builds it from \<^verbatim>\<open>arr: []\<close>: its Content is the nil slice, with no room.
  The patch \<^verbatim>\<open>{op: add, path: /arr/0, value: v}\<close> names the index equal to the length:
  the claim has the value appended; the code panics.
\<close>

theorem add_at_length_of_full_slice_panics:
  "processPatchNode
     (Node MappingNode [] ''!!map'' 1 ''test.yml''
        [Node ScalarNode ''arr'' ''!!str'' 1 ''test.yml'' [],
         Node SequenceNode [] ''!!seq'' 1 ''test.yml'' []]) 0
     (Where (Node MappingNode [] ''!!map'' 3 ''test.yml'' [])) ''/arr/0'' ''add''
     (Node ScalarNode ''v'' ''!!str'' 5 ''test.yml'' [])
   = (Node MappingNode [] ''!!map'' 1 ''test.yml''
        [Node ScalarNode ''arr'' ''!!str'' 1 ''test.yml'' [],
         Node SequenceNode [] ''!!seq'' 1 ''test.yml'' []],
      Some (runtimePanic ''slice bounds out of range''))"
  by code_simp

section \<open>Put\<close>

lemma getPairs_found:
  "getPairs c key i = Inr (Some (j, old)) \<Longrightarrow>
     i < j \<and> j - i < length c \<and> odd (j - i) \<and> c ! (j - i) = old \<and> Value (c ! (j - i - 1)) = key"
proof (induction c key i rule: getPairs.induct)
  case (3 k v rest key i)
  show ?case
  proof (cases "Value k = key")
    case True
    with 3 show ?thesis by auto
  next
    case False
    with 3 have IH: "i + 2 < j \<and> j - (i + 2) < length rest \<and> odd (j - (i + 2))
        \<and> rest ! (j - (i + 2)) = old \<and> Value (rest ! (j - (i + 2) - 1)) = key" by simp
    then obtain d where d: "j = i + 2 + d" "odd d" "0 < d"
      by (metis add_diff_inverse_nat less_imp_add_positive not_less_iff_gr_or_eq odd_pos add_diff_cancel_left')
    with IH show ?thesis by (auto simp: nth_Cons')
  qed
qed simp_all

lemma getPairs_even: "even (length c) \<Longrightarrow> \<exists>r. getPairs c key i = Inr r"
  by (induction c key i rule: getPairs.induct) auto

lemma getPairs_None_keysOf:
  "getPairs c key i = Inr None \<Longrightarrow> key \<notin> set (keysOf c)"
  by (induction c key i rule: getPairs.induct) (auto split: if_splits)

lemma putExisting_found:
  "getPairs c (Value key) i = Inr (Some (j, old)) \<Longrightarrow>
     putExisting c key val = Inr (Some (c[j - i := val], old))"
proof (induction c "Value key" i rule: getPairs.induct)
  case (3 k v rest i)
  show ?case
  proof (cases "Value k = Value key")
    case True
    with 3 show ?thesis by auto
  next
    case False
    with 3 have g: "getPairs rest (Value key) (i + 2) = Inr (Some (j, old))" by simp
    from getPairs_found[OF g] have "i + 2 < j" by simp
    then have "j - i = Suc (Suc (j - (i + 2)))" by simp
    with 3 False g show ?thesis by simp
  qed
qed simp_all

lemma putExisting_None:
  "getPairs c (Value key) i = Inr None \<Longrightarrow> putExisting c key val = Inr None"
  by (induction c "Value key" i rule: getPairs.induct) (auto split: if_splits)

lemma putPos_props:
  "even (length c) \<Longrightarrow>
     \<exists>d. putPos c key i = i + d \<and> d \<le> length c \<and> even d
       \<and> (\<forall>k \<in> set (keysOf (take d c)). \<not> Value key < k)
       \<and> (d < length c \<longrightarrow> Value key < Value (c ! d))"
proof (induction c key i rule: putPos.induct)
  case (3 k v rest key i)
  show ?case
  proof (cases "Value key < Value k")
    case True then show ?thesis by simp
  next
    case False
    with 3 obtain d where d: "putPos rest key (i + 2) = i + 2 + d" "d \<le> length rest" "even d"
      "\<forall>k \<in> set (keysOf (take d rest)). \<not> Value key < k"
      "d < length rest \<longrightarrow> Value key < Value (rest ! d)"
      by auto
    show ?thesis
      by (rule exI[of _ "d + 2"]) (use False d in auto)
  qed
qed simp_all

lemma keysOf_append: "even (length xs) \<Longrightarrow> keysOf (xs @ ys) = keysOf xs @ keysOf ys"
  by (induction xs rule: keysOf.induct) auto

lemma keysOf_drop_hd:
  "even (length c) \<Longrightarrow> even d \<Longrightarrow> d < length c \<Longrightarrow> keysOf (drop d c) = Value (c ! d) # keysOf (drop (d + 2) c)"
proof (induction c arbitrary: d rule: keysOf.induct)
  case (3 k v rest)
  show ?case
  proof (cases d)
    case 0 then show ?thesis by simp
  next
    case (Suc d')
    with 3(3) obtain e where e: "d = Suc (Suc e)" by (cases d') auto
    with 3 show ?thesis by simp
  qed
qed simp_all

lemma sorted_keysOf_insert:
  assumes "even (length c)" "even d" "d \<le> length c" "sorted (keysOf c)"
    and "\<forall>k \<in> set (keysOf (take d c)). \<not> Value key < k"
    and "d < length c \<longrightarrow> Value key < Value (c ! d)"
  shows "sorted (keysOf (take d c @ [key, val] @ drop d c))"
proof -
  have c: "c = take d c @ drop d c" by simp
  have et: "even (length (take d c))" using assms by (simp add: min_def)
  have k1: "keysOf c = keysOf (take d c) @ keysOf (drop d c)"
    using keysOf_append[OF et, of "drop d c"] by simp
  have k2: "keysOf (take d c @ [key, val] @ drop d c) = keysOf (take d c) @ Value key # keysOf (drop d c)"
    using keysOf_append[OF et, of "[key, val] @ drop d c"] by simp
  have le: "\<forall>k \<in> set (keysOf (take d c)). k \<le> Value key" using assms(5) by auto
  have ge: "\<forall>k \<in> set (keysOf (drop d c)). Value key \<le> k"
  proof (cases "d < length c")
    case False then show ?thesis using assms by simp
  next
    case True
    then have h: "keysOf (drop d c) = Value (c ! d) # keysOf (drop (d + 2) c)"
      using keysOf_drop_hd assms by blast
    have "sorted (keysOf (drop d c))" using assms(4) k1 by (metis sorted_append)
    with h True assms(6) show ?thesis by (auto simp: less_imp_le) 
  qed
  from assms(4) k1 have "sorted (keysOf (take d c))" "sorted (keysOf (drop d c))"
    by (metis sorted_append)+
  with le ge show ?thesis unfolding k2 by (fastforce simp: sorted_append intro: order_trans)
qed

text \<open>
  C4, as amended. \<open>Put\<close> on a Mapping whose Content has even length:
  \<^item> when the key exists, the value of its pair (at an odd index \<open>j\<close>, after the key) is
    replaced at that index, nothing else changes, and the old value is returned;
  \<^item> when the key is new and the key node is a scalar, the pair is inserted at an even
    index \<open>pos\<close>: no key before it is greater than the new key and the key at \<open>pos\<close> (if
    there is one) is greater, so keys in ascending order stay in ascending order;
  \<^item> when the key is new and the key node is not a scalar, the pair is appended.
  The kind of the value plays no part.
\<close>

theorem Put_Mapping:
  assumes "Kind n = MappingNode" and "even (length (Content n))"
  shows "(Get n (Value key) = Inr (Some old) \<longrightarrow>
            (\<exists>j < length (Content n). odd j \<and> Value (Content n ! (j - 1)) = Value key
                \<and> Content n ! j = old
                \<and> Put n key val = Inr (setContent n ((Content n)[j := val]), Some old)))
       \<and> (Get n (Value key) = Inr None \<and> Kind key = ScalarNode \<longrightarrow>
            (\<exists>pos \<le> length (Content n). even pos
                \<and> (\<forall>k \<in> set (keysOf (take pos (Content n))). \<not> Value key < k)
                \<and> (pos < length (Content n) \<longrightarrow> Value key < Value (Content n ! pos))
                \<and> Put n key val =
                    Inr (setContent n (take pos (Content n) @ [key, val] @ drop pos (Content n)),
                         None)
                \<and> (sorted (keysOf (Content n)) \<longrightarrow>
                     sorted (keysOf (take pos (Content n) @ [key, val] @ drop pos (Content n))))))
       \<and> (Get n (Value key) = Inr None \<and> Kind key \<noteq> ScalarNode \<longrightarrow>
            Put n key val = Inr (setContent n (Content n @ [key, val]), None))"
proof (intro conjI impI)
  assume g: "Get n (Value key) = Inr (Some old)"
  then obtain j where j: "getPairs (Content n) (Value key) 0 = Inr (Some (j, old))"
    using assms(1) by (auto simp: Get_def GetAt_def split: sum.splits)
  from getPairs_found[OF j] putExisting_found[OF j, of val] assms(1)
  show "\<exists>j < length (Content n). odd j \<and> Value (Content n ! (j - 1)) = Value key
                \<and> Content n ! j = old
                \<and> Put n key val = Inr (setContent n ((Content n)[j := val]), Some old)"
    by (intro exI[of _ j]) (simp add: Put_def)
next
  assume "Get n (Value key) = Inr None \<and> Kind key = ScalarNode"
  then have g: "getPairs (Content n) (Value key) 0 = Inr None" and sc: "Kind key = ScalarNode"
    using assms(1) by (auto simp: Get_def GetAt_def split: sum.splits)
  from putPos_props[OF assms(2), of key 0] obtain d where d:
    "putPos (Content n) key 0 = d" "d \<le> length (Content n)" "even d"
    "\<forall>k \<in> set (keysOf (take d (Content n))). \<not> Value key < k"
    "d < length (Content n) \<longrightarrow> Value key < Value (Content n ! d)"
    by auto
  have "Put n key val = Inr (setContent n (take d (Content n) @ [key, val] @ drop d (Content n)), None)"
    using putExisting_None[OF g, of val] assms(1) sc d(1) by (simp add: Put_def)
  moreover have "sorted (keysOf (Content n)) \<longrightarrow>
       sorted (keysOf (take d (Content n) @ [key, val] @ drop d (Content n)))"
    using sorted_keysOf_insert[OF assms(2) d(3) d(2) _ d(4) d(5)] by blast
  ultimately show "\<exists>pos \<le> length (Content n). even pos
                \<and> (\<forall>k \<in> set (keysOf (take pos (Content n))). \<not> Value key < k)
                \<and> (pos < length (Content n) \<longrightarrow> Value key < Value (Content n ! pos))
                \<and> Put n key val =
                    Inr (setContent n (take pos (Content n) @ [key, val] @ drop pos (Content n)),
                         None)
                \<and> (sorted (keysOf (Content n)) \<longrightarrow>
                     sorted (keysOf (take pos (Content n) @ [key, val] @ drop pos (Content n))))"
    using d by (intro exI[of _ d]) simp
next
  assume "Get n (Value key) = Inr None \<and> Kind key \<noteq> ScalarNode"
  then have g: "getPairs (Content n) (Value key) 0 = Inr None" and sc: "Kind key \<noteq> ScalarNode"
    using assms(1) by (auto simp: Get_def GetAt_def split: sum.splits)
  show "Put n key val = Inr (setContent n (Content n @ [key, val]), None)"
    using putExisting_None[OF g, of val] assms(1) sc by (simp add: Put_def)
qed


text \<open>The theorem at \<^verbatim>\<open>{b: 1, d: 2}\<close>, the new key \<^verbatim>\<open>c\<close> and a Mapping as the value.\<close>

theorem Put_Mapping_witness:
  "Kind (Node MappingNode [] ''!!map'' 1 ''f.yml''
           [Node ScalarNode ''b'' ''!!str'' 1 ''f.yml'' [], Node ScalarNode ''1'' ''!!int'' 1 ''f.yml'' [],
            Node ScalarNode ''d'' ''!!str'' 2 ''f.yml'' [], Node ScalarNode ''2'' ''!!int'' 2 ''f.yml'' []])
     = MappingNode
   \<and> Get (Node MappingNode [] ''!!map'' 1 ''f.yml''
           [Node ScalarNode ''b'' ''!!str'' 1 ''f.yml'' [], Node ScalarNode ''1'' ''!!int'' 1 ''f.yml'' [],
            Node ScalarNode ''d'' ''!!str'' 2 ''f.yml'' [], Node ScalarNode ''2'' ''!!int'' 2 ''f.yml'' []])
         ''c'' = Inr None
   \<and> Put (Node MappingNode [] ''!!map'' 1 ''f.yml''
           [Node ScalarNode ''b'' ''!!str'' 1 ''f.yml'' [], Node ScalarNode ''1'' ''!!int'' 1 ''f.yml'' [],
            Node ScalarNode ''d'' ''!!str'' 2 ''f.yml'' [], Node ScalarNode ''2'' ''!!int'' 2 ''f.yml'' []])
         (Node ScalarNode ''c'' ''!!str'' 0 ''p.yml'' []) (Node MappingNode [] [] 0 ''p.yml'' [])
     = Inr (Node MappingNode [] ''!!map'' 1 ''f.yml''
           [Node ScalarNode ''b'' ''!!str'' 1 ''f.yml'' [], Node ScalarNode ''1'' ''!!int'' 1 ''f.yml'' [],
            Node ScalarNode ''c'' ''!!str'' 0 ''p.yml'' [], Node MappingNode [] [] 0 ''p.yml'' [],
            Node ScalarNode ''d'' ''!!str'' 2 ''f.yml'' [], Node ScalarNode ''2'' ''!!int'' 2 ''f.yml'' []],
          None)"
  using Put_Mapping[of "Node MappingNode [] ''!!map'' 1 ''f.yml''
           [Node ScalarNode ''b'' ''!!str'' 1 ''f.yml'' [], Node ScalarNode ''1'' ''!!int'' 1 ''f.yml'' [],
            Node ScalarNode ''d'' ''!!str'' 2 ''f.yml'' [], Node ScalarNode ''2'' ''!!int'' 2 ''f.yml'' []]"
         "Node ScalarNode ''c'' ''!!str'' 0 ''p.yml'' []" _ "Node MappingNode [] [] 0 ''p.yml'' []"]
  by (simp add: Get_def GetAt_def Put_def setContent_def)

text \<open>
  C4 as stated fails: the claim decides by the kind of the value, the code by the kind
  of the key node. A new scalar key \<^verbatim>\<open>a\<close> with a Mapping as its value, put into
  \<^verbatim>\<open>{b: 1}\<close>, is not appended at the end but inserted before \<^verbatim>\<open>b\<close>.
\<close>

theorem Put_nonscalar_value_counterexample:
  "Kind (Node MappingNode [] [] 0 ''p.yml'' []) \<noteq> ScalarNode
   \<and> Get (Node MappingNode [] ''!!map'' 1 ''f.yml''
           [Node ScalarNode ''b'' ''!!str'' 1 ''f.yml'' [], Node ScalarNode ''1'' ''!!int'' 1 ''f.yml'' []])
         ''a'' = Inr None
   \<and> Put (Node MappingNode [] ''!!map'' 1 ''f.yml''
           [Node ScalarNode ''b'' ''!!str'' 1 ''f.yml'' [], Node ScalarNode ''1'' ''!!int'' 1 ''f.yml'' []])
         (Node ScalarNode ''a'' ''!!str'' 0 ''p.yml'' []) (Node MappingNode [] [] 0 ''p.yml'' [])
     = Inr (Node MappingNode [] ''!!map'' 1 ''f.yml''
           [Node ScalarNode ''a'' ''!!str'' 0 ''p.yml'' [], Node MappingNode [] [] 0 ''p.yml'' [],
            Node ScalarNode ''b'' ''!!str'' 1 ''f.yml'' [], Node ScalarNode ''1'' ''!!int'' 1 ''f.yml'' []],
          None)
   \<and> Put (Node MappingNode [] ''!!map'' 1 ''f.yml''
           [Node ScalarNode ''b'' ''!!str'' 1 ''f.yml'' [], Node ScalarNode ''1'' ''!!int'' 1 ''f.yml'' []])
         (Node ScalarNode ''a'' ''!!str'' 0 ''p.yml'' []) (Node MappingNode [] [] 0 ''p.yml'' [])
     \<noteq> Inr (Node MappingNode [] ''!!map'' 1 ''f.yml''
           [Node ScalarNode ''b'' ''!!str'' 1 ''f.yml'' [], Node ScalarNode ''1'' ''!!int'' 1 ''f.yml'' [],
            Node ScalarNode ''a'' ''!!str'' 0 ''p.yml'' [], Node MappingNode [] [] 0 ''p.yml'' []],
          None)"
  by (simp add: Get_def GetAt_def Put_def setContent_def)

section \<open>The variable expander on concrete scalars\<close>

lemma scan_KEY_10:
  "scanVars pf ''${KEY:10}'' 0 0 0 [] [] =
     [\<lparr>start = 0, end' = 9, name = ''KEY'', def = ''10'', tag = ''int''\<rparr>]"
  by code_simp

lemma scan_A_5:
  "scanVars pf ''${A:5}'' 0 0 0 [] [] =
     [\<lparr>start = 0, end' = 6, name = ''A'', def = ''5'', tag = ''int''\<rparr>]"
  by code_simp

lemma scan_A_broken:
  "scanVars pf ''${A:a}b}'' 0 0 0 [] [] =
     [\<lparr>start = 0, end' = 6, name = ''A'', def = ''a'', tag = guessScalarNodeTag pf ''a''\<rparr>]"
  by code_simp

lemma scan_BBB_empty_quoted:
  "scanVars pf [CHR ''$'', CHR ''{'', CHR ''B'', CHR ''B'', CHR ''B'', CHR '':'', CHR 0x22, CHR 0x22, CHR ''}''] 0 0 0 [] [] =
     [\<lparr>start = 0, end' = 9, name = ''BBB'', def = [], tag = ''str''\<rparr>]"
  by code_simp

section \<open>The resolver chain\<close>

lemma errorsIs_varNotFound: "errorsIs (varNotFound key) ErrVarNotFound"
  by (simp add: varNotFound_def)

text \<open>
  C10. A name that is set in the environment, to the empty string or to any other
  value, is found by the default resolver chain with that value, whatever the
  variables of the directives hold; and the value a reference of that name resolves to
  is the environment's, not the reference's default.
\<close>

theorem env_value_wins:
  assumes "env key = Some v"
  shows "defaultVarResolver env variables key = Inr v
       \<and> resolveVar (defaultVarResolver env variables) keepsVariables (vv\<lparr>name := key\<rparr>) = Inr v"
  using assms by (simp add: defaultVarResolver_def envVarResolver_def resolveVar_def)

text \<open>
  The theorem where the environment sets \<^verbatim>\<open>K\<close> to the empty string, the directives set it
  to \<^verbatim>\<open>dir\<close> and the reference is \<^verbatim>\<open>${K:d}\<close>.
\<close>

theorem env_value_wins_witness:
  "[''K'' \<mapsto> ''''] ''K'' = Some ''''
   \<and> defaultVarResolver [''K'' \<mapsto> '''']
        (Node MappingNode [] ''!!map'' 1 ''f.yml''
           [Node ScalarNode ''K'' ''!!str'' 2 ''f.yml'' [], Node ScalarNode ''dir'' ''!!str'' 2 ''f.yml'' []])
        ''K'' = Inr ''''
   \<and> resolveVar (defaultVarResolver [''K'' \<mapsto> '''']
        (Node MappingNode [] ''!!map'' 1 ''f.yml''
           [Node ScalarNode ''K'' ''!!str'' 2 ''f.yml'' [], Node ScalarNode ''dir'' ''!!str'' 2 ''f.yml'' []]))
        False \<lparr>start = 1, end' = 7, name = ''K'', def = ''d'', tag = ''str''\<rparr> = Inr ''''"
  using env_value_wins[of "[''K'' \<mapsto> '''']" "''K''" "''''"
      "Node MappingNode [] ''!!map'' 1 ''f.yml''
           [Node ScalarNode ''K'' ''!!str'' 2 ''f.yml'' [], Node ScalarNode ''dir'' ''!!str'' 2 ''f.yml'' []]"
      False "\<lparr>start = 1, end' = 7, name = ''K'', def = ''d'', tag = ''str''\<rparr>"]
  by simp

lemma env_empty_value_expands:
  "expandVar pf ''x${K:d}y'' (defaultVarResolver [''K'' \<mapsto> '''']
        (Node MappingNode [] ''!!map'' 1 ''f.yml''
           [Node ScalarNode ''K'' ''!!str'' 2 ''f.yml'' [], Node ScalarNode ''dir'' ''!!str'' 2 ''f.yml'' []]))
     False = Inr ''xy''"
  by code_simp simp

lemma newCompositeVarResolver_all_not_found:
  "list_all (\<lambda>r. \<exists>err. r key = Inl err \<and> errorsIs err ErrVarNotFound) resolvers \<Longrightarrow>
     newCompositeVarResolver resolvers key = Inl (varNotFound key)"
  by (induction resolvers) auto

lemma resolveVar_not_found:
  "resolv (name vv) = Inl err \<Longrightarrow> errorsIs err ErrVarNotFound \<Longrightarrow>
     resolveVar resolv False vv = (if def vv = [] then Inl err else Inr (def vv))"
  by (simp add: resolveVar_def)

text \<open>
  The scenario of the quoted default: the scalar \<^verbatim>\<open>${AAA:"e e e"}\<close> with \<^verbatim>\<open>AAA\<close> defined
  nowhere expands to the default, written in quotes since it holds blanks and is the
  whole scalar; inside a longer scalar it is substituted as it is.
\<close>

lemma quoted_default_expands:
  shows "expandVar parseFloatOk
     (''${AAA:'' @ [CHR 0x22] @ ''e e e'' @ [CHR 0x22] @ ''}'')
     (defaultVarResolver Map.empty (Node MappingNode [] [] 0 ''test.yml'' [])) False
   = Inr ([CHR 0x22] @ ''e e e'' @ [CHR 0x22])"
    and "expandVar parseFloatOk
     (''ddd ${AAA:'' @ [CHR 0x22] @ ''e e e'' @ [CHR 0x22] @ ''} fff'')
     (defaultVarResolver Map.empty (Node MappingNode [] [] 0 ''test.yml'' [])) False
   = Inr ''ddd e e e fff''"
proof -
  have q: "quote ''e e e'' = [CHR 0x22] @ ''e e e'' @ [CHR 0x22]"
    by code_simp
  show "expandVar parseFloatOk
     (''${AAA:'' @ [CHR 0x22] @ ''e e e'' @ [CHR 0x22] @ ''}'')
     (defaultVarResolver Map.empty (Node MappingNode [] [] 0 ''test.yml'' [])) False
   = Inr ([CHR 0x22] @ ''e e e'' @ [CHR 0x22])"
    by code_simp (simp add: isSpace_def q)
  show "expandVar parseFloatOk
     (''ddd ${AAA:'' @ [CHR 0x22] @ ''e e e'' @ [CHR 0x22] @ ''} fff'')
     (defaultVarResolver Map.empty (Node MappingNode [] [] 0 ''test.yml'' [])) False
   = Inr ''ddd e e e fff''"
    by code_simp
qed

text \<open>
  C3, at the input where the code departs from the claim. The reference \<^verbatim>\<open>${BBB:""}\<close> has
  a default, the empty string in quotes, and neither the environment nor the directives
  define \<^verbatim>\<open>BBB\<close>: the claim has the default substituted (the README shows the result
  \<^verbatim>\<open>""\<close>); the code fails with "BBB not found", since it takes a default of length 0
  for no default. (That is \<open>resolveVar_not_found\<close>: with every resolver reporting
  not-found, a default that is not empty is used and an empty one is an error.)
\<close>

theorem empty_quoted_default_not_used:
  "expandVar parseFloatOk
     [CHR ''$'', CHR ''{'', CHR ''B'', CHR ''B'', CHR ''B'', CHR '':'', CHR 0x22, CHR 0x22, CHR ''}'']
     (defaultVarResolver Map.empty (Node MappingNode [] [] 0 ''test.yml'' [])) False
   = Inl (New ErrVarNotFound ''%s not found'' None [S ''BBB''])"
  by (simp add: expandVar_def scan_BBB_empty_quoted resolveVar_def defaultVarResolver_def
        envVarResolver_def newDirectiveVarResolver_def Get_def GetAt_def varNotFound_def)

section \<open>Keeping the expression, then substituting\<close>

text \<open>
  C7, at an input where the code departs from the claim. The scalar is \<^verbatim>\<open>${A:5}\<close> and the
  environment sets \<^verbatim>\<open>A\<close> to \<^verbatim>\<open>a}b\<close>. Substituting directly gives \<^verbatim>\<open>a}b\<close>. Keeping the
  expression gives \<^verbatim>\<open>${A:a}b}\<close>: the value is not quoted, because the type guessed from
  the old default \<^verbatim>\<open>5\<close> is not a string. Substituting into that gives \<^verbatim>\<open>a}bb}\<close>: the
  reference now ends at the first \<^verbatim>\<open>}\<close>.
\<close>

theorem keep_then_substitute_differs:
  "expandVar parseFloatOk ''${A:5}'' (envVarResolver [''A'' \<mapsto> ''a}b'']) False = Inr ''a}b''
   \<and> expandVar parseFloatOk ''${A:5}'' (envVarResolver [''A'' \<mapsto> ''a}b'']) True = Inr ''${A:a}b}''
   \<and> expandVar parseFloatOk ''${A:a}b}'' (envVarResolver [''A'' \<mapsto> ''a}b'']) False = Inr ''a}bb}''"
  by (simp add: expandVar_def scan_A_5 scan_A_broken resolveVar_def envVarResolver_def
        expandPiece_def slice_def)

section \<open>Numbers from defaults and from the environment\<close>

lemma processVars_scalar_reparsed:
  assumes "expandVar parseFloatOk val resolver keepsVariables = Inr newString"
    and "val \<noteq> newString" and "unmarshal newString = Inr d" and "mustRootNode d = Inr nd"
  shows "processVars parseFloatOk unmarshal resolver keepsVariables
           (Node ScalarNode val ''!!str'' ln fl content)
         = (Node ScalarNode (Value nd) (Tag nd) ln fl content, None)"
  using assms by simp

text \<open>
  C6. The document \<^verbatim>\<open>{value: "${KEY:10}"}\<close>. Where neither the environment nor the
  directives define \<^verbatim>\<open>KEY\<close>, the scalar becomes the text \<^verbatim>\<open>10\<close> with the tag the YAML
  parser gives that text; where the environment has \<^verbatim>\<open>KEY=99\<close>, it becomes \<^verbatim>\<open>99\<close>
  likewise. The node takes its Value and its Tag from the parse of the substituted text
  (\<open>processVars_scalar_reparsed\<close> above, for every scalar), so with a parser that reads
  \<^verbatim>\<open>10\<close> and \<^verbatim>\<open>99\<close> as integers, as YAML has it, the nodes are tagged \<^verbatim>\<open>!!int\<close>; the type
  guessed from the default \<^verbatim>\<open>10\<close> is \<^verbatim>\<open>int\<close>, which keeps the result unquoted.
\<close>

theorem default_and_env_number:
  assumes "unmarshal ''10'' = Inr (Node DocumentNode [] [] 1 [] [Node ScalarNode ''10'' ''!!int'' 1 [] []])"
    and "unmarshal ''99'' = Inr (Node DocumentNode [] [] 1 [] [Node ScalarNode ''99'' ''!!int'' 1 [] []])"
    and "env ''KEY'' = None" and "Get variables ''KEY'' = Inr None"
    and "env' ''KEY'' = Some ''99''"
  shows "processVars parseFloatOk unmarshal (defaultVarResolver env variables) False
           (Node MappingNode [] ''!!map'' 1 file
              [Node ScalarNode ''value'' ''!!str'' 1 file [],
               Node ScalarNode ''${KEY:10}'' ''!!str'' 1 file []])
         = (Node MappingNode [] ''!!map'' 1 file
              [Node ScalarNode ''value'' ''!!str'' 1 file [],
               Node ScalarNode ''10'' ''!!int'' 1 file []], None)
       \<and> processVars parseFloatOk unmarshal (defaultVarResolver env' variables) False
           (Node MappingNode [] ''!!map'' 1 file
              [Node ScalarNode ''value'' ''!!str'' 1 file [],
               Node ScalarNode ''${KEY:10}'' ''!!str'' 1 file []])
         = (Node MappingNode [] ''!!map'' 1 file
              [Node ScalarNode ''value'' ''!!str'' 1 file [],
               Node ScalarNode ''99'' ''!!int'' 1 file []], None)
       \<and> guessScalarNodeTag parseFloatOk ''10'' = ''int''
       \<and> guessScalarNodeTag parseFloatOk ''99'' = ''int''"
proof -
  have a: "expandVar parseFloatOk ''${KEY:10}'' (defaultVarResolver env variables) False = Inr ''10''"
    using assms(3,4)
    by (auto simp: expandVar_def scan_KEY_10 resolveVar_def defaultVarResolver_def
        envVarResolver_def newDirectiveVarResolver_def varNotFound_def expandPiece_def slice_def
        split: sum.splits option.splits)
  have b: "expandVar parseFloatOk ''${KEY:10}'' (defaultVarResolver env' variables) False = Inr ''99''"
    using assms(5)
    by (auto simp: expandVar_def scan_KEY_10 resolveVar_def defaultVarResolver_def
        envVarResolver_def expandPiece_def slice_def)
  have c: "guessScalarNodeTag parseFloatOk ''10'' = ''int''" "guessScalarNodeTag parseFloatOk ''99'' = ''int''"
    by code_simp+
  show ?thesis using a b c assms(1,2) by (simp add: mustRootNode_def)
qed

text \<open>
  The theorem with a parser that reads every text as an integer scalar, the empty
  environment, no directive variables, and the environment \<^verbatim>\<open>KEY=99\<close>.
\<close>

theorem default_and_env_number_witness:
  "(\<lambda>s. Inr (Node DocumentNode [] [] 1 [] [Node ScalarNode s ''!!int'' 1 [] []])) ''10''
     = (Inr (Node DocumentNode [] [] 1 [] [Node ScalarNode ''10'' ''!!int'' 1 [] []]) :: error + node)
   \<and> (Map.empty :: string \<rightharpoonup> string) ''KEY'' = None
   \<and> Get (Node MappingNode [] [] 0 ''test.yml'' []) ''KEY'' = Inr None
   \<and> [''KEY'' \<mapsto> ''99''] ''KEY'' = Some ''99''
   \<and> processVars (\<lambda>s. False)
        (\<lambda>s. Inr (Node DocumentNode [] [] 1 [] [Node ScalarNode s ''!!int'' 1 [] []]))
        (defaultVarResolver Map.empty (Node MappingNode [] [] 0 ''test.yml'' [])) False
        (Node MappingNode [] ''!!map'' 1 ''test.yml''
           [Node ScalarNode ''value'' ''!!str'' 1 ''test.yml'' [],
            Node ScalarNode ''${KEY:10}'' ''!!str'' 1 ''test.yml'' []])
      = (Node MappingNode [] ''!!map'' 1 ''test.yml''
           [Node ScalarNode ''value'' ''!!str'' 1 ''test.yml'' [],
            Node ScalarNode ''10'' ''!!int'' 1 ''test.yml'' []], None)
   \<and> processVars (\<lambda>s. False)
        (\<lambda>s. Inr (Node DocumentNode [] [] 1 [] [Node ScalarNode s ''!!int'' 1 [] []]))
        (defaultVarResolver [''KEY'' \<mapsto> ''99''] (Node MappingNode [] [] 0 ''test.yml'' [])) False
        (Node MappingNode [] ''!!map'' 1 ''test.yml''
           [Node ScalarNode ''value'' ''!!str'' 1 ''test.yml'' [],
            Node ScalarNode ''${KEY:10}'' ''!!str'' 1 ''test.yml'' []])
      = (Node MappingNode [] ''!!map'' 1 ''test.yml''
           [Node ScalarNode ''value'' ''!!str'' 1 ''test.yml'' [],
            Node ScalarNode ''99'' ''!!int'' 1 ''test.yml'' []], None)"
  using default_and_env_number[of
      "\<lambda>s. Inr (Node DocumentNode [] [] 1 [] [Node ScalarNode s ''!!int'' 1 [] []])"
      "Map.empty" "Node MappingNode [] [] 0 ''test.yml'' []" "[''KEY'' \<mapsto> ''99'']"
      "\<lambda>s. False" "''test.yml''"]
  by (simp add: Get_def GetAt_def)

section \<open>The invariant of Mapping nodes\<close>

lemma wellFormed_iff:
  "wellFormed n = ((Kind n = MappingNode \<longrightarrow> even (length (Content n)) \<and> distinct (keysOf (Content n)))
       \<and> (\<forall>x \<in> set (Content n). wellFormed x))"
  by (cases n) (auto simp: list_all_iff)

lemma wellFormed_setContent:
  "wellFormed (setContent n c) = ((Kind n = MappingNode \<longrightarrow> even (length c) \<and> distinct (keysOf c))
       \<and> (\<forall>x \<in> set c. wellFormed x))"
  by (simp add: setContent_def list_all_iff)

lemma Kind_setContent [simp]: "Kind (setContent n c) = Kind n"
  and Content_setContent [simp]: "Content (setContent n c) = c"
  by (simp_all add: setContent_def)

lemma keysOf_update_odd: "odd j \<Longrightarrow> keysOf (c[j := x]) = keysOf c"
proof (induction c arbitrary: j rule: keysOf.induct)
  case (3 k v rest)
  show ?case
  proof (cases j)
    case 0 with 3(2) show ?thesis by simp
  next
    case (Suc j')
    show ?thesis
    proof (cases j')
      case 0 with Suc show ?thesis by simp
    next
      case (Suc e)
      with \<open>j = Suc j'\<close> 3(2) have "odd e" by simp
      with 3(1)[of e] Suc \<open>j = Suc j'\<close> show ?thesis by simp
    qed
  qed
next
  case (2 k)
  then show ?case by (cases j) auto
qed simp

lemma keysOf_take_drop:
  "even d \<Longrightarrow> keysOf c = keysOf (take d c) @ keysOf (drop d c)"
proof (induction c arbitrary: d rule: keysOf.induct)
  case (3 k v rest)
  show ?case
  proof (cases d)
    case 0 then show ?thesis by simp
  next
    case (Suc d')
    with 3(2) obtain e where e: "d = Suc (Suc e)" "even e" by (cases d') auto
    with 3(1)[of e] show ?thesis by simp
  qed
next
  case (2 k)
  then show ?case by (cases d) auto
qed simp

lemma Put_wellFormed:
  assumes "wellFormed n" "wellFormed key" "wellFormed val"
  shows "\<exists>n' old. Put n key val = Inr (n', old) \<and> wellFormed n' \<and> Kind n' = Kind n"
proof (cases "Kind n = MappingNode")
  case False
  with assms show ?thesis by (simp add: Put_def)
next
  case True
  with assms(1)[unfolded wellFormed_iff[of n]]
  have ev: "even (length (Content n))" and di: "distinct (keysOf (Content n))"
    and ch: "\<forall>x \<in> set (Content n). wellFormed x"
    by simp_all
  from getPairs_even[OF ev] obtain r where r: "getPairs (Content n) (Value key) 0 = Inr r" by blast
  show ?thesis
  proof (cases r)
    case None
    with r have g: "getPairs (Content n) (Value key) 0 = Inr None" by simp
    define pos where "pos = (if Kind key = ScalarNode then putPos (Content n) key 0 else length (Content n))"
    have p: "even pos \<and> pos \<le> length (Content n)"
      using putPos_props[OF ev, of key 0] ev by (auto simp: pos_def)
    have put: "Put n key val = Inr (setContent n (take pos (Content n) @ [key, val] @ drop pos (Content n)), None)"
      using putExisting_None[OF g, of val] True by (simp add: Put_def pos_def Let_def)
    have et: "even (length (take pos (Content n)))" using p ev by (auto simp: min_def)
    have k: "keysOf (take pos (Content n) @ [key, val] @ drop pos (Content n))
        = keysOf (take pos (Content n)) @ Value key # keysOf (drop pos (Content n))"
      using keysOf_append[OF et, of "[key, val] @ drop pos (Content n)"] by simp
    have kc: "keysOf (Content n) = keysOf (take pos (Content n)) @ keysOf (drop pos (Content n))"
      using keysOf_take_drop p by blast
    have new: "Value key \<notin> set (keysOf (Content n))" using getPairs_None_keysOf[OF g] .
    have "distinct (keysOf (take pos (Content n) @ [key, val] @ drop pos (Content n)))"
      using di new unfolding k kc by auto
    moreover have "even (length (take pos (Content n) @ [key, val] @ drop pos (Content n)))"
      using ev p by (simp add: min_absorb2)
    moreover have "\<forall>x \<in> set (take pos (Content n) @ [key, val] @ drop pos (Content n)). wellFormed x"
      using ch assms(2,3) by (auto dest: in_set_takeD in_set_dropD)
    ultimately show ?thesis using put by (simp add: wellFormed_setContent)
  next
    case (Some a)
    then obtain j old where g: "getPairs (Content n) (Value key) 0 = Inr (Some (j, old))"
      using r by (cases a) auto
    from getPairs_found[OF g] have j: "odd j" "j < length (Content n)" by auto
    have put: "Put n key val = Inr (setContent n ((Content n)[j := val]), Some old)"
      using putExisting_found[OF g, of val] True by (simp add: Put_def)
    have "\<forall>x \<in> set ((Content n)[j := val]). wellFormed x"
      using ch assms(3) by (auto dest!: subsetD[OF set_update_subset_insert])
    then show ?thesis using put ev di j by (simp add: wellFormed_setContent keysOf_update_odd)
  qed
qed

lemma deletePairs_result:
  "even (length c) \<Longrightarrow>
     \<exists>c' ret. deletePairs c key acc ret0 = Inr (acc @ c', ret) \<and> even (length c')
        \<and> keysOf c' = filter (\<lambda>k. k \<noteq> key) (keysOf c) \<and> set c' \<subseteq> set c"
proof (induction c key acc ret0 rule: deletePairs.induct)
  case (3 k v rest key newContent ret)
  show ?case
  proof (cases "Value k = key")
    case True
    with 3 show ?thesis by auto
  next
    case False
    with 3 obtain c' r where c': "deletePairs rest key (newContent @ [k, v]) ret = Inr ((newContent @ [k, v]) @ c', r)"
      "even (length c')" "keysOf c' = filter (\<lambda>k. k \<noteq> key) (keysOf rest)" "set c' \<subseteq> set rest"
      by auto
    show ?thesis
      by (rule exI[of _ "k # v # c'"], rule exI[of _ r]) (use False c' in auto)
  qed
qed simp_all

lemma Delete_wellFormed:
  assumes "wellFormed n"
  shows "\<exists>n' removed. Delete n key = Inr (n', removed) \<and> wellFormed n' \<and> Kind n' = Kind n"
proof (cases "Kind n = MappingNode")
  case False
  with assms show ?thesis by (simp add: Delete_def)
next
  case True
  with assms(1)[unfolded wellFormed_iff[of n]]
  have ev: "even (length (Content n))" and di: "distinct (keysOf (Content n))"
    and ch: "\<forall>x \<in> set (Content n). wellFormed x"
    by simp_all
  from deletePairs_result[OF ev, of key "[]" None] obtain c' ret where
    c': "deletePairs (Content n) key [] None = Inr (c', ret)" "even (length c')"
      "keysOf c' = filter (\<lambda>k. k \<noteq> key) (keysOf (Content n))" "set c' \<subseteq> set (Content n)"
    by auto
  then show ?thesis using True di ch by (auto simp: Delete_def wellFormed_setContent)
qed


lemma hasKeyPairs_getPairs:
  "hasKeyPairs c k = (case getPairs c (Value k) i of Inl e \<Rightarrow> Inl e | Inr r \<Rightarrow> Inr (r \<noteq> None))"
  by (induction c k arbitrary: i rule: hasKeyPairs.induct) auto

lemma HasKey_Get:
  "HasKey n k = (case Get n (Value k) of Inl e \<Rightarrow> Inl e | Inr r \<Rightarrow> Inr (r \<noteq> None))"
  by (auto simp: HasKey_def Get_def GetAt_def hasKeyPairs_getPairs[of _ _ 0] split: sum.splits)

lemma Get_in_Content: "Get n key = Inr (Some c) \<Longrightarrow> c \<in> set (Content n)"
  by (auto simp: Get_def GetAt_def split: if_splits sum.splits dest!: getPairs_found)

lemma Get_wellFormed: "wellFormed n \<Longrightarrow> Get n key = Inr (Some c) \<Longrightarrow> wellFormed c"
  using Get_in_Content wellFormed_iff[of n] by blast

lemma Get_total: "even (length (Content n)) \<Longrightarrow> \<exists>r. Get n key = Inr r"
proof -
  assume "even (length (Content n))"
  from getPairs_even[OF this, of key 0] obtain r where "getPairs (Content n) key 0 = Inr r" ..
  then show ?thesis by (simp add: Get_def GetAt_def)
qed

lemma fold_Append:
  "Kind n = SequenceNode \<Longrightarrow> fold (\<lambda>v acc. Append acc v) xs n = setContent n (Content n @ xs)"
proof (induction xs arbitrary: n)
  case Nil
  then show ?case by (cases n) (simp add: setContent_def)
next
  case (Cons x xs)
  then show ?case by (simp add: Append_def setContent_def)
qed

lemma Merge_mergePairs_wellFormed:
  "(wellFormed n \<longrightarrow> wellFormed other \<longrightarrow>
      (\<exists>m. Merge n other = Inr m \<and> wellFormed m))"
  "(wellFormed n \<longrightarrow> Kind n = MappingNode \<longrightarrow> even (length content) \<longrightarrow>
      (\<forall>x \<in> set content. wellFormed x) \<longrightarrow>
      (\<exists>m. mergePairs n content = Inr m \<and> wellFormed m \<and> Kind m = MappingNode))"
proof (induction n other and n content rule: Merge_mergePairs.induct)
  case (1 n okind ovalue otag oline ofile ocontent)
  show ?case
  proof (intro impI)
    assume wn: "wellFormed n" and wo: "wellFormed (Node okind ovalue otag oline ofile ocontent)"
    show "\<exists>m. Merge n (Node okind ovalue otag oline ofile ocontent) = Inr m \<and> wellFormed m"
    proof (cases "Kind n = okind")
      case False
      with wo show ?thesis by simp
    next
      case same: True
      show ?thesis
      proof (cases "Kind n = MappingNode")
        case True
        from wo same True have "even (length ocontent)" "\<forall>x \<in> set ocontent. wellFormed x"
          by (auto simp: list_all_iff)
        with 1 same True wn obtain m where "mergePairs n ocontent = Inr m" "wellFormed m" by auto
        with same True show ?thesis by simp
      next
        case notmap: False
        show ?thesis
        proof (cases "Kind n = SequenceNode")
          case True
          have "\<forall>x \<in> set (Content n @ ocontent). wellFormed x"
            using wn wo wellFormed_iff[of n] by (auto simp: list_all_iff)
          with same True show ?thesis
            by (simp add: fold_Append wellFormed_setContent)
        next
          case False
          with same notmap wo show ?thesis by (cases "Kind n") simp_all
        qed
      qed
    qed
  qed
next
  case (2 n)
  then show ?case by simp
next
  case (3 n k)
  then show ?case by simp
next
  case (4 n k v rest)
  show ?case
  proof (intro impI)
    assume wn: "wellFormed n" and mp: "Kind n = MappingNode"
      and ev: "even (length (k # v # rest))" and wc: "\<forall>x \<in> set (k # v # rest). wellFormed x"
    from wn mp wellFormed_iff[of n] have evn: "even (length (Content n))" by simp
    from Get_total[OF evn] obtain r where g: "Get n (Value k) = Inr r" by blast
    have hk: "HasKey n k = Inr (r \<noteq> None)" using g by (simp add: HasKey_Get)
    show "\<exists>m. mergePairs n (k # v # rest) = Inr m \<and> wellFormed m \<and> Kind m = MappingNode"
    proof (cases r)
      case None
      from Put_wellFormed[OF wn, of k v] wc obtain n' old where
        p: "Put n k v = Inr (n', old)" "wellFormed n'" "Kind n' = Kind n" by auto
      from "4.IH"(3)[of False "(n', old)" n' old] hk None p mp ev wc
      obtain m where "mergePairs n' rest = Inr m" "wellFormed m" "Kind m = MappingNode" by auto
      with hk None p show ?thesis by simp
    next
      case (Some c)
      from Get_wellFormed[OF wn] g Some have wfc: "wellFormed c" by simp
      from "4.IH"(1)[of True r c] hk g Some wfc wc obtain nv where
        nv: "Merge c v = Inr nv" "wellFormed nv" by auto
      from Put_wellFormed[OF wn _ nv(2), of k] wc obtain n' old where
        p: "Put n k nv = Inr (n', old)" "wellFormed n'" "Kind n' = Kind n" by auto
      from "4.IH"(2)[of True r c nv "(n', old)" n' old] hk g Some nv p mp ev wc
      obtain m where "mergePairs n' rest = Inr m" "wellFormed m" "Kind m = MappingNode" by auto
      with hk g Some nv p show ?thesis by simp
    qed
  qed
qed

lemma Merge_wellFormed:
  "wellFormed n \<Longrightarrow> wellFormed other \<Longrightarrow> \<exists>m. Merge n other = Inr m \<and> wellFormed m"
  using Merge_mergePairs_wellFormed(1) by blast


lemma wellFormed_update_child:
  assumes "wellFormed n" "i < length (Content n)" "Kind n = MappingNode \<longrightarrow> odd i" "wellFormed c'"
  shows "wellFormed (setContent n ((Content n)[i := c']))"
proof -
  from assms(1) wellFormed_iff[of n]
  have w: "Kind n = MappingNode \<longrightarrow> even (length (Content n)) \<and> distinct (keysOf (Content n))"
    and ch: "\<forall>x \<in> set (Content n). wellFormed x" by simp_all
  have "\<forall>x \<in> set ((Content n)[i := c']). wellFormed x"
    using ch assms(4) by (auto dest!: subsetD[OF set_update_subset_insert])
  with w assms(3) show ?thesis by (simp add: wellFormed_setContent keysOf_update_odd)
qed

lemma findNodeByJSONPointer_wellFormed:
  "findNodeByJSONPointer n p = Inr (a, t) \<Longrightarrow> wellFormed n \<Longrightarrow>
     wellFormed t \<and> (\<forall>f. wellFormed (f t) \<longrightarrow> wellFormed (updateAt n a f))"
proof (induction n p arbitrary: a t rule: findNodeByJSONPointer.induct)
  case (1 n)
  then show ?case by simp
next
  case (2 n tok ts)
  let ?g = "if Kind n = MappingNode then GetAt n (String tok) else Inr None"
  from "2.prems"(1) obtain r where r: "?g = Inr r" by (auto split: sum.splits)
  show ?case
  proof (cases r)
    case (Some jc)
    obtain j c where jc: "jc = (j, c)" by (cases jc)
    with r Some have mp: "Kind n = MappingNode" and g: "getPairs (Content n) (String tok) 0 = Inr (Some (j, c))"
      by (auto simp: GetAt_def split: if_splits)
    from getPairs_found[OF g] have j: "odd j" "j < length (Content n)" "Content n ! j = c" by auto
    from "2.prems"(1) r Some jc obtain a' where a': "findNodeByJSONPointer c ts = Inr (a', t)" "a = j # a'"
      by (auto split: sum.splits)
    have wc: "wellFormed c" using "2.prems"(2) j wellFormed_iff[of n] by (metis nth_mem)
    from "2.IH"(2)[OF r Some jc[symmetric] a'(1) wc]
    have ih: "wellFormed t" "\<And>f. wellFormed (f t) \<Longrightarrow> wellFormed (updateAt c a' f)" by auto
    show ?thesis
      using ih j a'(2) wellFormed_update_child[OF "2.prems"(2) j(2)] by auto
  next
    case None
    with "2.prems"(1) r have sq: "Kind n = SequenceNode" and ix: "0 \<le> Index tok"
      "nat (Index tok) < length (Content n)"
      by (auto split: if_splits sum.splits)
    from "2.prems"(1) r None obtain a' where
      a': "findNodeByJSONPointer (Content n ! nat (Index tok)) ts = Inr (a', t)" "a = nat (Index tok) # a'"
      by (auto split: if_splits sum.splits)
    have wc: "wellFormed (Content n ! nat (Index tok))"
      using "2.prems"(2) ix wellFormed_iff[of n] by (metis nth_mem)
    have c: "\<not> \<not> IsIndex tok" "\<not> Kind n \<noteq> SequenceNode" "\<not> Index tok < 0"
      "\<not> int (length (Content n)) \<le> Index tok"
      using "2.prems"(1) r None by (auto split: if_splits)
    from "2.IH"(1)[OF r None c a'(1) wc]
    have ih: "wellFormed t"
      "\<And>f. wellFormed (f t) \<Longrightarrow> wellFormed (updateAt (Content n ! nat (Index tok)) a' f)" by auto
    show ?thesis
      using ih ix a'(2) sq wellFormed_update_child[OF "2.prems"(2) ix(2)] by auto
  qed
qed

lemma FindNodeByJSONPointer_wellFormed:
  "FindNodeByJSONPointer n path = Inr (a, t) \<Longrightarrow> wellFormed n \<Longrightarrow>
     wellFormed t \<and> (\<forall>f. wellFormed (f t) \<longrightarrow> wellFormed (updateAt n a f))"
  by (auto simp: FindNodeByJSONPointer_def split: sum.splits if_splits
           dest: findNodeByJSONPointer_wellFormed)

lemma wellFormed_newStringNode: "wellFormed (newStringNode s file)"
  by (simp add: newStringNode_def)

lemma jsonPatchAdd_wellFormed:
  assumes "wellFormed n" "wellFormed newValue"
  shows "wellFormed (fst (jsonPatchAdd n spare jp newValue))"
proof (cases "Pop jp")
  case None
  with assms show ?thesis by (simp add: jsonPatchAdd_def)
next
  case (Some pc)
  obtain parent child where pc: "pc = (parent, child)" by (cases pc)
  show ?thesis
  proof (cases "FindNodeByJSONPointer n (jsonPointer_String parent)")
    case (Inl err)
    from jsonPatchAdd_parent_missing[OF Some[unfolded pc] Inl] assms show ?thesis by simp
  next
    case (Inr at)
    obtain a t where at: "at = (a, t)" by (cases at)
    from FindNodeByJSONPointer_wellFormed[OF Inr[unfolded at] assms(1)]
    have wt: "wellFormed t" and up: "\<And>f. wellFormed (f t) \<Longrightarrow> wellFormed (updateAt n a f)" by auto
    from wt wellFormed_iff[of t] have ch: "\<forall>x \<in> set (Content t). wellFormed x" by simp
    show ?thesis
    proof (cases "IsIndex child \<and> Kind t = SequenceNode")
      case True
      have 1: "wellFormed (setContent t (Content t @ [newValue]))"
        using True ch assms(2) by (simp add: wellFormed_setContent)
      have 2: "wellFormed (setContent t (take (nat (Index child)) (Content t) @ [newValue]
               @ drop (nat (Index child)) (Content t)))"
        using True ch assms(2) by (auto simp: wellFormed_setContent dest: in_set_takeD in_set_dropD)
      from up[of "\<lambda>u. setContent u (Content t @ [newValue])"]
        up[of "\<lambda>u. setContent u (take (nat (Index child)) (Content t) @ [newValue]
               @ drop (nat (Index child)) (Content t))"]
        1 2 assms(1) True Some pc Inr at show ?thesis
        by (simp add: jsonPatchAdd_def Let_def)
    next
      case False
      show ?thesis
      proof (cases "Kind t = MappingNode")
        case True
        from Put_wellFormed[OF wt wellFormed_newStringNode assms(2)] obtain t' old where
          p: "Put t (newStringNode (String child) (File n)) newValue = Inr (t', old)" "wellFormed t'"
          by blast
        from up[of "\<lambda>t. t'"] p assms(1) True False Some pc Inr at show ?thesis
          by (auto simp: jsonPatchAdd_def Let_def)
      next
        case notmap: False
        with False assms(1) Some pc Inr at show ?thesis
          by (auto simp: jsonPatchAdd_def Let_def)
      qed
    qed
  qed
qed

lemma jsonPatchRemove_wellFormed:
  assumes "wellFormed n"
  shows "wellFormed (fst (jsonPatchRemove n jp))"
proof (cases "Pop jp")
  case None
  with assms show ?thesis by (simp add: jsonPatchRemove_def)
next
  case (Some pc)
  obtain parent child where pc: "pc = (parent, child)" by (cases pc)
  show ?thesis
  proof (cases "FindNodeByJSONPointer n (jsonPointer_String parent)")
    case (Inl err)
    with Some pc assms show ?thesis by (simp add: jsonPatchRemove_def)
  next
    case (Inr at)
    obtain a t where at: "at = (a, t)" by (cases at)
    from FindNodeByJSONPointer_wellFormed[OF Inr[unfolded at] assms(1)]
    have wt: "wellFormed t" and up: "\<And>f. wellFormed (f t) \<Longrightarrow> wellFormed (updateAt n a f)" by auto
    from wt wellFormed_iff[of t] have ch: "\<forall>x \<in> set (Content t). wellFormed x" by simp
    show ?thesis
    proof (cases "IsIndex child \<and> \<not> IsLastIndex child \<and> Kind t = SequenceNode")
      case True
      have 1: "wellFormed (setContent t (take (nat (Index child)) (Content t)
               @ drop (nat (Index child) + 1) (Content t)))"
        using True ch by (auto simp: wellFormed_setContent dest: in_set_takeD in_set_dropD)
      from up[of "\<lambda>u. setContent u (take (nat (Index child)) (Content t)
               @ drop (nat (Index child) + 1) (Content t))"]
        1 assms(1) True Some pc Inr at show ?thesis
        by (simp add: jsonPatchRemove_def Let_def)
    next
      case False
      show ?thesis
      proof (cases "Kind t = MappingNode")
        case True
        from Delete_wellFormed[OF wt, of "String child"] obtain t' removed where
          p: "Delete t (String child) = Inr (t', removed)" "wellFormed t'"
          by blast
        from up[of "\<lambda>t. t'"] p assms(1) True False Some pc Inr at show ?thesis
          by (auto simp: jsonPatchRemove_def Let_def)
      next
        case notmap: False
        with False assms(1) Some pc Inr at show ?thesis
          by (auto simp: jsonPatchRemove_def Let_def)
      qed
    qed
  qed
qed

lemma processPatchNode_wellFormed:
  assumes "wellFormed n" "wellFormed newValue"
  shows "wellFormed (fst (processPatchNode n spare wh path op newValue))"
proof (cases "parseJSONPointer path")
  case (Inl err)
  with assms show ?thesis by (simp add: processPatchNode_def)
next
  case (Inr jp)
  have add: "\<And>m s. wellFormed m \<Longrightarrow> wellFormed (fst (jsonPatchAdd m s jp newValue))"
    using jsonPatchAdd_wellFormed assms(2) by blast
  have rem: "wellFormed (fst (jsonPatchRemove n jp))"
    using jsonPatchRemove_wellFormed assms(1) by blast
  obtain n1 e1 where r: "jsonPatchRemove n jp = (n1, e1)" by (cases "jsonPatchRemove n jp")
  with rem have w1: "wellFormed n1" by simp
  obtain n2 e2 where a: "jsonPatchAdd n spare jp newValue = (n2, e2)"
    by (cases "jsonPatchAdd n spare jp newValue")
  with add[OF assms(1), of spare] have w2: "wellFormed n2" by simp
  obtain n3 e3 where b: "jsonPatchAdd n1 (if e1 = None then spare + 1 else spare) jp newValue = (n3, e3)"
    by (cases "jsonPatchAdd n1 (if e1 = None then spare + 1 else spare) jp newValue")
  with add[OF w1, of "if e1 = None then spare + 1 else spare"] have w3: "wellFormed n3" by simp
  show ?thesis
    using Inr assms(1) r a b w1 w2 w3
    by (auto simp: processPatchNode_def split: option.splits error.splits)
qed

section \<open>Merge\<close>

lemma getPairs_index_irrelevant:
  "(case getPairs c k i of Inl e \<Rightarrow> Inl e | Inr r \<Rightarrow> Inr (map_option snd r))
   = (case getPairs c k j of Inl e \<Rightarrow> Inl e | Inr r \<Rightarrow> Inr (map_option snd r))"
proof (induction c arbitrary: i j rule: keysOf.induct)
  case (3 a b rest)
  from 3[of "i + 2" "j + 2"] show ?case by simp
qed simp_all

lemma Get_Nil: "Kind n = MappingNode \<Longrightarrow> Get (setContent n []) k = Inr None"
  by (simp add: Get_def GetAt_def)

lemma Get_Cons2:
  "Kind n = MappingNode \<Longrightarrow>
     Get (setContent n (a # b # rest)) k =
       (if Value a = k then Inr (Some b) else Get (setContent n rest) k)"
  using getPairs_index_irrelevant[of rest k "Suc (Suc 0)" 0] by (simp add: Get_def GetAt_def)

lemma setContent_Content [simp]: "setContent n (Content n) = n"
  by (cases n) (simp add: setContent_def)

lemma Get_append:
  "Kind n = MappingNode \<Longrightarrow> even (length xs) \<Longrightarrow>
     Get (setContent n (xs @ ys)) k =
       (case Get (setContent n xs) k of Inr None \<Rightarrow> Get (setContent n ys) k | r \<Rightarrow> r)"
proof (induction xs rule: keysOf.induct)
  case 1
  then show ?case by (simp add: Get_Nil)
next
  case (2 a)
  then show ?case by simp
next
  case (3 a b rest)
  then show ?case by (simp add: Get_Cons2)
qed

lemma Get_None_iff:
  "Kind n = MappingNode \<Longrightarrow> even (length c) \<Longrightarrow>
     (Get (setContent n c) k = Inr None) = (k \<notin> set (keysOf c))"
proof (induction c rule: keysOf.induct)
  case 1
  then show ?case by (simp add: Get_Nil)
next
  case (2 a)
  then show ?case by simp
next
  case (3 a b rest)
  then show ?case by (auto simp: Get_Cons2)
qed

lemma Get_update_found:
  "Kind n = MappingNode \<Longrightarrow> getPairs c key i = Inr (Some (j, old)) \<Longrightarrow>
     Get (setContent n (c[j - i := val])) k =
       (if k = key then Inr (Some val) else Get (setContent n c) k)"
proof (induction c key i rule: getPairs.induct)
  case (3 a b rest key i)
  show ?case
  proof (cases "Value a = key")
    case True
    with 3 show ?thesis by (auto simp: Get_Cons2)
  next
    case False
    with 3 have g: "getPairs rest key (i + 2) = Inr (Some (j, old))" by simp
    from getPairs_found[OF g] have "i + 2 < j" by simp
    then have "j - i = Suc (Suc (j - (i + 2)))" by simp
    with 3 False g show ?thesis by (auto simp: Get_Cons2)
  qed
qed simp_all

lemma Put_setContent: "Put n key val = Inr (n', old) \<Longrightarrow> setContent n' c = setContent n c"
  by (auto simp: Put_def setContent_def Let_def split: sum.splits option.splits if_splits)

lemma Get_Put:
  assumes "Kind n = MappingNode" "even (length (Content n))" "Put n key val = Inr (n', old)"
  shows "Get n' k = (if k = Value key then Inr (Some val) else Get n k)"
proof -
  from getPairs_even[OF assms(2)] obtain r where r: "getPairs (Content n) (Value key) 0 = Inr r"
    by blast
  show ?thesis
  proof (cases r)
    case None
    with r have g: "getPairs (Content n) (Value key) 0 = Inr None" by simp
    define pos where "pos = (if Kind key = ScalarNode then putPos (Content n) key 0 else length (Content n))"
    have p: "even pos \<and> pos \<le> length (Content n)"
      using putPos_props[OF assms(2), of key 0] assms(2) by (auto simp: pos_def)
    have put: "n' = setContent n (take pos (Content n) @ [key, val] @ drop pos (Content n))"
      using putExisting_None[OF g, of val] assms(1,3) by (simp add: Put_def pos_def Let_def)
    have et: "even (length (take pos (Content n)))" using p assms(2) by (auto simp: min_def)
    have new: "Value key \<notin> set (keysOf (Content n))" using getPairs_None_keysOf[OF g] .
    have kc: "keysOf (Content n) = keysOf (take pos (Content n)) @ keysOf (drop pos (Content n))"
      using keysOf_take_drop p by blast
    have n0: "Get n k = (case Get (setContent n (take pos (Content n))) k of
                 Inr None \<Rightarrow> Get (setContent n (drop pos (Content n))) k | r \<Rightarrow> r)"
      using Get_append[OF assms(1) et, of "drop pos (Content n)" k] by simp
    have "Get n' k = Get (setContent n (take pos (Content n) @ key # val # drop pos (Content n))) k"
      using put by simp
    also have "\<dots> = (case Get (setContent n (take pos (Content n))) k of
                 Inr None \<Rightarrow> Get (setContent n (key # val # drop pos (Content n))) k | r \<Rightarrow> r)"
      by (rule Get_append[OF assms(1) et])
    finally have n1: "Get n' k = (case Get (setContent n (take pos (Content n))) k of
                 Inr None \<Rightarrow> (if Value key = k then Inr (Some val)
                              else Get (setContent n (drop pos (Content n))) k) | r \<Rightarrow> r)"
      by (simp add: Get_Cons2[OF assms(1)] split: sum.splits option.splits)
    show ?thesis
    proof (cases "k = Value key")
      case True
      with new kc have "k \<notin> set (keysOf (take pos (Content n)))" by simp
      with Get_None_iff[OF assms(1) et, of k] have "Get (setContent n (take pos (Content n))) k = Inr None"
        by simp
      with n1 True show ?thesis by simp
    next
      case False
      with n0 n1 show ?thesis by (auto split: sum.splits option.splits)
    qed
  next
    case (Some a)
    then obtain j old' where g: "getPairs (Content n) (Value key) 0 = Inr (Some (j, old'))"
      using r by (cases a) auto
    have put: "n' = setContent n ((Content n)[j := val])"
      using putExisting_found[OF g, of val] assms(1,3) by (simp add: Put_def)
    show ?thesis unfolding put using Get_update_found[OF assms(1) g, of val k] by simp
  qed
qed

lemma mergePairs_Get:
  assumes "wellFormed n" "Kind n = MappingNode" "even (length content)"
    "distinct (keysOf content)" "\<forall>x \<in> set content. wellFormed x"
  shows "\<exists>m. mergePairs n content = Inr m \<and> wellFormed m \<and> Kind m = MappingNode \<and>
     (\<forall>k. Get m k =
        (case Get (setContent n content) k of
           Inr None \<Rightarrow> Get n k
         | Inr (Some b) \<Rightarrow>
             (case Get n k of
                Inr None \<Rightarrow> Inr (Some b)
              | Inr (Some a) \<Rightarrow> (case Merge a b of Inr x \<Rightarrow> Inr (Some x) | Inl e \<Rightarrow> Inl e)
              | Inl e \<Rightarrow> Inl e)
         | Inl e \<Rightarrow> Inl e))"
  using assms
proof (induction content arbitrary: n rule: keysOf.induct)
  case 1
  then show ?case by (simp add: Get_Nil)
next
  case (2 k)
  then show ?case by simp
next
  case (3 k0 v0 rest)
  note wn = "3.prems"(1) and mp = "3.prems"(2)
  from "3.prems" have ev: "even (length rest)" and di: "distinct (keysOf rest)"
    and nk: "Value k0 \<notin> set (keysOf rest)" and wr: "\<forall>x \<in> set rest. wellFormed x"
    and wk: "wellFormed k0" and wv: "wellFormed v0"
    by auto
  from wn mp wellFormed_iff[of n] have evn: "even (length (Content n))" by simp
  from Get_total[OF evn] obtain r where g: "Get n (Value k0) = Inr r" by blast
  have hk: "HasKey n k0 = Inr (r \<noteq> None)" using g by (simp add: HasKey_Get)
  have rest0: "Get (setContent n rest) (Value k0) = Inr None"
    using Get_None_iff[OF mp ev, of "Value k0"] nk by simp
  show ?case
  proof (cases r)
    case None
    from Put_wellFormed[OF wn wk wv] obtain n' old where
      p: "Put n k0 v0 = Inr (n', old)" "wellFormed n'" "Kind n' = Kind n" by auto
    have gp: "\<And>k. Get n' k = (if k = Value k0 then Inr (Some v0) else Get n k)"
      using Get_Put[OF mp evn p(1)] by simp
    from "3.IH"[OF p(2) _ ev di wr] p(3) mp obtain m where
      m: "mergePairs n' rest = Inr m" "wellFormed m" "Kind m = MappingNode"
      "\<And>k. Get m k =
        (case Get (setContent n' rest) k of
           Inr None \<Rightarrow> Get n' k
         | Inr (Some b) \<Rightarrow>
             (case Get n' k of
                Inr None \<Rightarrow> Inr (Some b)
              | Inr (Some a) \<Rightarrow> (case Merge a b of Inr x \<Rightarrow> Inr (Some x) | Inl e \<Rightarrow> Inl e)
              | Inl e \<Rightarrow> Inl e)
         | Inl e \<Rightarrow> Inl e)" by auto
    have sc: "\<And>c. setContent n' c = setContent n c"
      using Put_setContent[OF p(1)] .
    have mm: "mergePairs n (k0 # v0 # rest) = Inr m" using hk None p m(1) by simp
    show ?thesis
    proof (intro exI[of _ m] conjI allI)
      fix k
      show "Get m k =
        (case Get (setContent n (k0 # v0 # rest)) k of
           Inr None \<Rightarrow> Get n k
         | Inr (Some b) \<Rightarrow>
             (case Get n k of
                Inr None \<Rightarrow> Inr (Some b)
              | Inr (Some a) \<Rightarrow> (case Merge a b of Inr x \<Rightarrow> Inr (Some x) | Inl e \<Rightarrow> Inl e)
              | Inl e \<Rightarrow> Inl e)
         | Inl e \<Rightarrow> Inl e)"
      proof (cases "k = Value k0")
        case True
        with m(4)[of k] sc rest0 gp[of k] g None show ?thesis
          by (simp add: Get_Cons2[OF mp] cong: sum.case_cong option.case_cong)
      next
        case False
        with m(4)[of k] sc gp[of k] show ?thesis
          by (simp add: Get_Cons2[OF mp] cong: sum.case_cong option.case_cong)
      qed
    qed (use mm m in auto)
  next
    case (Some c)
    from Get_wellFormed[OF wn] g Some have wfc: "wellFormed c" by simp
    from Merge_wellFormed[OF wfc wv] obtain nv where nv: "Merge c v0 = Inr nv" "wellFormed nv" by auto
    from Put_wellFormed[OF wn wk nv(2)] obtain n' old where
      p: "Put n k0 nv = Inr (n', old)" "wellFormed n'" "Kind n' = Kind n" by auto
    have gp: "\<And>k. Get n' k = (if k = Value k0 then Inr (Some nv) else Get n k)"
      using Get_Put[OF mp evn p(1)] by simp
    from "3.IH"[OF p(2) _ ev di wr] p(3) mp obtain m where
      m: "mergePairs n' rest = Inr m" "wellFormed m" "Kind m = MappingNode"
      "\<And>k. Get m k =
        (case Get (setContent n' rest) k of
           Inr None \<Rightarrow> Get n' k
         | Inr (Some b) \<Rightarrow>
             (case Get n' k of
                Inr None \<Rightarrow> Inr (Some b)
              | Inr (Some a) \<Rightarrow> (case Merge a b of Inr x \<Rightarrow> Inr (Some x) | Inl e \<Rightarrow> Inl e)
              | Inl e \<Rightarrow> Inl e)
         | Inl e \<Rightarrow> Inl e)" by auto
    have sc: "\<And>c. setContent n' c = setContent n c"
      using Put_setContent[OF p(1)] .
    have mm: "mergePairs n (k0 # v0 # rest) = Inr m" using hk g Some nv p m(1) by simp
    show ?thesis
    proof (intro exI[of _ m] conjI allI)
      fix k
      show "Get m k =
        (case Get (setContent n (k0 # v0 # rest)) k of
           Inr None \<Rightarrow> Get n k
         | Inr (Some b) \<Rightarrow>
             (case Get n k of
                Inr None \<Rightarrow> Inr (Some b)
              | Inr (Some a) \<Rightarrow> (case Merge a b of Inr x \<Rightarrow> Inr (Some x) | Inl e \<Rightarrow> Inl e)
              | Inl e \<Rightarrow> Inl e)
         | Inl e \<Rightarrow> Inl e)"
      proof (cases "k = Value k0")
        case True
        with m(4)[of k] sc rest0 gp[of k] g Some nv show ?thesis
          by (simp add: Get_Cons2[OF mp] cong: sum.case_cong option.case_cong)
      next
        case False
        with m(4)[of k] sc gp[of k] show ?thesis
          by (simp add: Get_Cons2[OF mp] cong: sum.case_cong option.case_cong)
      qed
    qed (use mm m in auto)
  qed
qed


lemma Merge_both_Mappings:
  "Kind n = MappingNode \<Longrightarrow> Kind other = MappingNode \<Longrightarrow>
     Merge n other = mergePairs n (Content other)"
  by (cases other) simp

lemma Merge_both_Sequences:
  "Kind a = SequenceNode \<Longrightarrow> Kind b = SequenceNode \<Longrightarrow>
     Merge a b = Inr (setContent a (Content a @ Content b))"
  by (cases b) (simp add: fold_Append)

lemma Get_setContent_Mapping:
  "Kind A = MappingNode \<Longrightarrow> Kind B = MappingNode \<Longrightarrow> Get (setContent A c) k = Get (setContent B c) k"
  by (simp add: Get_def GetAt_def)

text \<open>
  C5. For Mapping trees \<open>A\<close> and \<open>B\<close> (that satisfy the invariant), \<open>Merge A B\<close> returns a
  Mapping \<open>M\<close> in which, for every key: a key that \<open>B\<close> does not have is in \<open>M\<close> as it is
  in \<open>A\<close> (with \<open>A\<close>'s value, or absent); a key that only \<open>B\<close> has carries \<open>B\<close>'s value;
  a key that both have carries the merge of the two values, and where the two values
  are Sequences, that is \<open>A\<close>'s Sequence with the elements of \<open>B\<close>'s appended in their
  order.
\<close>

theorem Merge_Mappings:
  assumes "wellFormed A" and "wellFormed B" and "Kind A = MappingNode" and "Kind B = MappingNode"
  shows "\<exists>M. Merge A B = Inr M \<and> Kind M = MappingNode \<and>
     (\<forall>k. case Get B k of
            Inl e \<Rightarrow> False
          | Inr None \<Rightarrow> Get M k = Get A k
          | Inr (Some b) \<Rightarrow>
              (case Get A k of
                 Inl e \<Rightarrow> False
               | Inr None \<Rightarrow> Get M k = Inr (Some b)
               | Inr (Some a) \<Rightarrow>
                   (\<exists>m. Merge a b = Inr m \<and> Get M k = Inr (Some m)
                      \<and> (Kind a = SequenceNode \<and> Kind b = SequenceNode \<longrightarrow>
                           m = setContent a (Content a @ Content b)))))"
proof -
  from assms(2,4) wellFormed_iff[of B]
  have evB: "even (length (Content B))" and diB: "distinct (keysOf (Content B))"
    and chB: "\<forall>x \<in> set (Content B). wellFormed x" by simp_all
  from assms(1,3) wellFormed_iff[of A] have evA: "even (length (Content A))" by simp
  from mergePairs_Get[OF assms(1,3) evB diB chB] obtain M where
    M: "mergePairs A (Content B) = Inr M" "Kind M = MappingNode"
    and G: "\<And>k. Get M k =
        (case Get (setContent A (Content B)) k of
           Inr None \<Rightarrow> Get A k
         | Inr (Some b) \<Rightarrow>
             (case Get A k of
                Inr None \<Rightarrow> Inr (Some b)
              | Inr (Some a) \<Rightarrow> (case Merge a b of Inr x \<Rightarrow> Inr (Some x) | Inl e \<Rightarrow> Inl e)
              | Inl e \<Rightarrow> Inl e)
         | Inl e \<Rightarrow> Inl e)"
    by auto
  have GB: "\<And>k. Get (setContent A (Content B)) k = Get B k"
    using Get_setContent_Mapping[OF assms(3,4), of "Content B"] by simp
  show ?thesis
  proof (intro exI[of _ M] conjI allI)
    show "Merge A B = Inr M" using M(1) Merge_both_Mappings[OF assms(3,4)] by simp
    show "Kind M = MappingNode" by (rule M(2))
    fix k
    from Get_total[OF evB] obtain rb where rb: "Get B k = Inr rb" by blast
    from Get_total[OF evA] obtain ra where ra: "Get A k = Inr ra" by blast
    show "case Get B k of
            Inl e \<Rightarrow> False
          | Inr None \<Rightarrow> Get M k = Get A k
          | Inr (Some b) \<Rightarrow>
              (case Get A k of
                 Inl e \<Rightarrow> False
               | Inr None \<Rightarrow> Get M k = Inr (Some b)
               | Inr (Some a) \<Rightarrow>
                   (\<exists>m. Merge a b = Inr m \<and> Get M k = Inr (Some m)
                      \<and> (Kind a = SequenceNode \<and> Kind b = SequenceNode \<longrightarrow>
                           m = setContent a (Content a @ Content b))))"
    proof (cases rb)
      case None
      with rb G[of k] GB[of k] show ?thesis by simp
    next
      case (Some b)
      note sb = this
      show ?thesis
      proof (cases ra)
        case None
        with rb ra sb G[of k] GB[of k] show ?thesis by simp
      next
        case (Some a)
        from Get_wellFormed[OF assms(1)] ra Some have wa: "wellFormed a" by simp
        from Get_wellFormed[OF assms(2)] rb sb have wb: "wellFormed b" by simp
        from Merge_wellFormed[OF wa wb] obtain m where m: "Merge a b = Inr m" by blast
        have "Kind a = SequenceNode \<and> Kind b = SequenceNode \<longrightarrow> m = setContent a (Content a @ Content b)"
          using m Merge_both_Sequences[of a b] by auto
        with rb ra sb Some m G[of k] GB[of k] show ?thesis by simp
      qed
    qed
  qed
qed

text \<open>The theorem at \<^verbatim>\<open>A = {a: 1, s: [x]}\<close> and \<^verbatim>\<open>B = {s: [y], b: 2}\<close>.\<close>

theorem Merge_Mappings_witness:
  "wellFormed (Node MappingNode [] ''!!map'' 1 ''base.yml''
       [Node ScalarNode ''a'' ''!!str'' 1 ''base.yml'' [], Node ScalarNode ''1'' ''!!int'' 1 ''base.yml'' [],
        Node ScalarNode ''s'' ''!!str'' 2 ''base.yml'' [],
        Node SequenceNode [] ''!!seq'' 2 ''base.yml'' [Node ScalarNode ''x'' ''!!str'' 3 ''base.yml'' []]])
   \<and> wellFormed (Node MappingNode [] ''!!map'' 1 ''over.yml''
       [Node ScalarNode ''s'' ''!!str'' 1 ''over.yml'' [],
        Node SequenceNode [] ''!!seq'' 1 ''over.yml'' [Node ScalarNode ''y'' ''!!str'' 2 ''over.yml'' []],
        Node ScalarNode ''b'' ''!!str'' 3 ''over.yml'' [], Node ScalarNode ''2'' ''!!int'' 3 ''over.yml'' []])
   \<and> (\<exists>M. Merge (Node MappingNode [] ''!!map'' 1 ''base.yml''
       [Node ScalarNode ''a'' ''!!str'' 1 ''base.yml'' [], Node ScalarNode ''1'' ''!!int'' 1 ''base.yml'' [],
        Node ScalarNode ''s'' ''!!str'' 2 ''base.yml'' [],
        Node SequenceNode [] ''!!seq'' 2 ''base.yml'' [Node ScalarNode ''x'' ''!!str'' 3 ''base.yml'' []]])
       (Node MappingNode [] ''!!map'' 1 ''over.yml''
       [Node ScalarNode ''s'' ''!!str'' 1 ''over.yml'' [],
        Node SequenceNode [] ''!!seq'' 1 ''over.yml'' [Node ScalarNode ''y'' ''!!str'' 2 ''over.yml'' []],
        Node ScalarNode ''b'' ''!!str'' 3 ''over.yml'' [], Node ScalarNode ''2'' ''!!int'' 3 ''over.yml'' []])
       = Inr M
      \<and> Get M ''a'' = Inr (Some (Node ScalarNode ''1'' ''!!int'' 1 ''base.yml'' []))
      \<and> Get M ''b'' = Inr (Some (Node ScalarNode ''2'' ''!!int'' 3 ''over.yml'' []))
      \<and> Get M ''s'' = Inr (Some (Node SequenceNode [] ''!!seq'' 2 ''base.yml''
            [Node ScalarNode ''x'' ''!!str'' 3 ''base.yml'' [],
             Node ScalarNode ''y'' ''!!str'' 2 ''over.yml'' []])))"
proof -
  let ?A = "Node MappingNode [] ''!!map'' 1 ''base.yml''
       [Node ScalarNode ''a'' ''!!str'' 1 ''base.yml'' [], Node ScalarNode ''1'' ''!!int'' 1 ''base.yml'' [],
        Node ScalarNode ''s'' ''!!str'' 2 ''base.yml'' [],
        Node SequenceNode [] ''!!seq'' 2 ''base.yml'' [Node ScalarNode ''x'' ''!!str'' 3 ''base.yml'' []]]"
  let ?B = "Node MappingNode [] ''!!map'' 1 ''over.yml''
       [Node ScalarNode ''s'' ''!!str'' 1 ''over.yml'' [],
        Node SequenceNode [] ''!!seq'' 1 ''over.yml'' [Node ScalarNode ''y'' ''!!str'' 2 ''over.yml'' []],
        Node ScalarNode ''b'' ''!!str'' 3 ''over.yml'' [], Node ScalarNode ''2'' ''!!int'' 3 ''over.yml'' []]"
  have wA: "wellFormed ?A" and wB: "wellFormed ?B" by simp_all
  from Merge_Mappings[OF wA wB] obtain M where M: "Merge ?A ?B = Inr M"
    and G: "\<And>k. case Get ?B k of
            Inl e \<Rightarrow> False
          | Inr None \<Rightarrow> Get M k = Get ?A k
          | Inr (Some b) \<Rightarrow>
              (case Get ?A k of
                 Inl e \<Rightarrow> False
               | Inr None \<Rightarrow> Get M k = Inr (Some b)
               | Inr (Some a) \<Rightarrow>
                   (\<exists>m. Merge a b = Inr m \<and> Get M k = Inr (Some m)
                      \<and> (Kind a = SequenceNode \<and> Kind b = SequenceNode \<longrightarrow>
                           m = setContent a (Content a @ Content b))))"
    by auto
  from G[of "''a''"] have a: "Get M ''a'' = Inr (Some (Node ScalarNode ''1'' ''!!int'' 1 ''base.yml'' []))"
    by (simp add: Get_def GetAt_def)
  from G[of "''b''"] have b: "Get M ''b'' = Inr (Some (Node ScalarNode ''2'' ''!!int'' 3 ''over.yml'' []))"
    by (simp add: Get_def GetAt_def)
  from G[of "''s''"] have s: "Get M ''s'' = Inr (Some (Node SequenceNode [] ''!!seq'' 2 ''base.yml''
            [Node ScalarNode ''x'' ''!!str'' 3 ''base.yml'' [],
             Node ScalarNode ''y'' ''!!str'' 2 ''over.yml'' []]))"
    by (simp add: Get_def GetAt_def setContent_def)
  from wA wB M a b s show ?thesis by blast
qed

section \<open>Every operation keeps the invariant\<close>

text \<open>
  C8. The invariant (every Mapping node of the tree has a Content of even length whose
  key strings are pairwise distinct) is kept by every operation on the tree: from
  trees, keys and values that satisfy it, \<open>Put\<close>, \<open>Delete\<close> and \<open>Merge\<close> return (they do
  not panic) a tree that satisfies it, and the tree that a patch leaves behind (add,
  remove, or any operation of \<open>processPatchNode\<close>, \<^verbatim>\<open>replace\<close> among them) satisfies it,
  whether the patch succeeds or reports an error.
\<close>

theorem invariant_preserved:
  assumes "wellFormed n" and "wellFormed key" and "wellFormed val" and "wellFormed other"
  shows "(\<exists>n' old. Put n key val = Inr (n', old) \<and> wellFormed n')
       \<and> (\<exists>n' removed. Delete n k = Inr (n', removed) \<and> wellFormed n')
       \<and> (\<exists>m. Merge n other = Inr m \<and> wellFormed m)
       \<and> wellFormed (fst (jsonPatchAdd n spare jp val))
       \<and> wellFormed (fst (jsonPatchRemove n jp))
       \<and> wellFormed (fst (processPatchNode n spare wh path op val))"
  using Put_wellFormed[OF assms(1,2,3)] Delete_wellFormed[OF assms(1), of k]
    Merge_wellFormed[OF assms(1,4)] jsonPatchAdd_wellFormed[OF assms(1,3)]
    jsonPatchRemove_wellFormed[OF assms(1)] processPatchNode_wellFormed[OF assms(1,3)]
  by blast

text \<open>
  The theorem at the tree \<^verbatim>\<open>{a: 1, s: [x]}\<close>, the new key \<^verbatim>\<open>b\<close> and the patch
  \<^verbatim>\<open>{op: replace, path: /s/0, value: v}\<close>.
\<close>

theorem invariant_preserved_witness:
  "wellFormed (Node MappingNode [] ''!!map'' 1 ''base.yml''
       [Node ScalarNode ''a'' ''!!str'' 1 ''base.yml'' [], Node ScalarNode ''1'' ''!!int'' 1 ''base.yml'' [],
        Node ScalarNode ''s'' ''!!str'' 2 ''base.yml'' [],
        Node SequenceNode [] ''!!seq'' 2 ''base.yml'' [Node ScalarNode ''x'' ''!!str'' 3 ''base.yml'' []]])
   \<and> wellFormed (Node ScalarNode ''b'' ''!!str'' 0 ''base.yml'' [])
   \<and> wellFormed (Node ScalarNode ''v'' ''!!str'' 7 ''patch.yml'' [])
   \<and> wellFormed (fst (processPatchNode (Node MappingNode [] ''!!map'' 1 ''base.yml''
       [Node ScalarNode ''a'' ''!!str'' 1 ''base.yml'' [], Node ScalarNode ''1'' ''!!int'' 1 ''base.yml'' [],
        Node ScalarNode ''s'' ''!!str'' 2 ''base.yml'' [],
        Node SequenceNode [] ''!!seq'' 2 ''base.yml'' [Node ScalarNode ''x'' ''!!str'' 3 ''base.yml'' []]])
       1 (S ''patch.yml(line:5)'') ''/s/0'' ''replace'' (Node ScalarNode ''v'' ''!!str'' 7 ''patch.yml'' [])))
   \<and> (\<exists>n' old. Put (Node MappingNode [] ''!!map'' 1 ''base.yml''
       [Node ScalarNode ''a'' ''!!str'' 1 ''base.yml'' [], Node ScalarNode ''1'' ''!!int'' 1 ''base.yml'' [],
        Node ScalarNode ''s'' ''!!str'' 2 ''base.yml'' [],
        Node SequenceNode [] ''!!seq'' 2 ''base.yml'' [Node ScalarNode ''x'' ''!!str'' 3 ''base.yml'' []]])
       (Node ScalarNode ''b'' ''!!str'' 0 ''base.yml'' []) (Node ScalarNode ''v'' ''!!str'' 7 ''patch.yml'' [])
       = Inr (n', old) \<and> wellFormed n')"
proof -
  let ?n = "Node MappingNode [] ''!!map'' 1 ''base.yml''
       [Node ScalarNode ''a'' ''!!str'' 1 ''base.yml'' [], Node ScalarNode ''1'' ''!!int'' 1 ''base.yml'' [],
        Node ScalarNode ''s'' ''!!str'' 2 ''base.yml'' [],
        Node SequenceNode [] ''!!seq'' 2 ''base.yml'' [Node ScalarNode ''x'' ''!!str'' 3 ''base.yml'' []]]"
  have w: "wellFormed ?n" "wellFormed (Node ScalarNode ''b'' ''!!str'' 0 ''base.yml'' [])"
    "wellFormed (Node ScalarNode ''v'' ''!!str'' 7 ''patch.yml'' [])" by simp_all
  from invariant_preserved[OF w(1) w(2) w(3) w(1), of "''a''" 1 "[]" "S ''patch.yml(line:5)''" "''/s/0''" "''replace''"]
  show ?thesis using w by blast
qed

end
